theory Spec2Isabelle
  imports Main "HOL-Library.Word"
begin

unbundle bit_operations_syntax

section \<open>Data model of the element store (sc\_storage.c)\<close>

text \<open>
  The store of \<^verbatim>\<open>sc_storage.c\<close> is embedded for one calling context at a time: every
  function takes the storage value and returns the updated one. The headers
  (\<^verbatim>\<open>sc_types.h\<close>, \<^verbatim>\<open>sc_defines.h\<close>, \<^verbatim>\<open>sc_element.h\<close>, \<^verbatim>\<open>sc_segment.h\<close>,
  \<^verbatim>\<open>sc_config.h\<close>) are not among the sources, so the constants they define are the fields
  of a parameter record \<open>K\<close> that every function receives, and the segment primitives are
  modelled from the specification (each marked so below).
\<close>

type_synonym sc_type = "16 word"

text \<open>
  \<^verbatim>\<open>sc_addr\<close>: the pair \<^verbatim>\<open>seg\<close>, \<^verbatim>\<open>offset\<close>. No arithmetic is done on the two
  components, so they are naturals; \<^verbatim>\<open>SC_ADDR_LOCAL_TO_INT\<close> packs the pair into one
  integer without loss, so a hash-table key is the address itself.
\<close>

record sc_addr =
  seg :: nat
  offset :: nat

text \<open>
  The empty address is the all-zero pair: the source builds every new element with
  \<^verbatim>\<open>memset(&el, 0, sizeof(el))\<close> and then reads the zeroed list heads with
  \<^verbatim>\<open>SC_ADDR_IS_NOT_EMPTY\<close> as empty lists.
\<close>

definition SC_ADDR_EMPTY :: sc_addr where
  "SC_ADDR_EMPTY = \<lparr>seg = 0, offset = 0\<rparr>"

definition SC_ADDR_IS_EMPTY :: "sc_addr \<Rightarrow> bool" where
  "SC_ADDR_IS_EMPTY a = (seg a = 0 \<and> offset a = 0)"

definition SC_ADDR_IS_NOT_EMPTY :: "sc_addr \<Rightarrow> bool" where
  "SC_ADDR_IS_NOT_EMPTY a = (\<not> SC_ADDR_IS_EMPTY a)"

definition SC_ADDR_IS_EQUAL :: "sc_addr \<Rightarrow> sc_addr \<Rightarrow> bool" where
  "SC_ADDR_IS_EQUAL a b = (seg a = seg b \<and> offset a = offset b)"

text \<open>
  \<^verbatim>\<open>sc_element\<close>, with the fields the source reads and writes: \<^verbatim>\<open>flags.type\<close>, the two
  list heads, the arc payload \<^verbatim>\<open>arc.begin\<close>, \<^verbatim>\<open>arc.end\<close>, \<^verbatim>\<open>arc.next_out_arc\<close>,
  \<^verbatim>\<open>arc.prev_out_arc\<close>, \<^verbatim>\<open>arc.next_in_arc\<close>, \<^verbatim>\<open>arc.prev_in_arc\<close> and the link payload
  \<^verbatim>\<open>content.data\<close>. The nested structs are flattened into one record.
\<close>

record sc_element =
  el_type :: sc_type
  first_out_arc :: sc_addr
  first_in_arc :: sc_addr
  arc_begin :: sc_addr
  arc_end :: sc_addr
  arc_next_out_arc :: sc_addr
  arc_prev_out_arc :: sc_addr
  arc_next_in_arc :: sc_addr
  arc_prev_in_arc :: sc_addr
  content_data :: "8 word list"

text \<open>
  Modelled from the spec: \<^verbatim>\<open>sc_segment\<close> (\<^verbatim>\<open>sc_segment.h\<close> is missing). A segment is a
  fixed-capacity slot array with a per-slot lock. The lock of a slot is the number of
  acquisitions the modelled context holds on it; no other context is modelled, so an
  acquisition never waits. A pointer to a segment is modelled by the index of the segment
  in the table, which is the number \<^verbatim>\<open>sc_segment_new\<close> was given (\<^verbatim>\<open>seg->num\<close>); a
  pointer to an element by the address of its slot.
\<close>

record sc_segment =
  elements :: "nat \<Rightarrow> sc_element"
  locks :: "nat \<Rightarrow> nat"

datatype sc_result =
  SC_RESULT_OK | SC_RESULT_ERROR | SC_RESULT_ERROR_INVALID_TYPE | SC_RESULT_ERROR_INVALID_PARAMS

datatype sc_event_type =
  SC_EVENT_ADD_OUTPUT_ARC | SC_EVENT_ADD_INPUT_ARC
  | SC_EVENT_REMOVE_OUTPUT_ARC | SC_EVENT_REMOVE_INPUT_ARC | SC_EVENT_REMOVE_ELEMENT

text \<open>
  The event sink is an external collaborator; the model records each call made to it:
  \<^verbatim>\<open>sc_event_emit(el, type, arg)\<close> and \<^verbatim>\<open>sc_event_notify_element_deleted(addr)\<close>.
\<close>

datatype sc_notification =
  Event_emit sc_addr sc_event_type sc_addr
  | Element_deleted sc_addr

text \<open>
  The constants of the missing headers and of the configuration, and the order in which
  a \<^verbatim>\<open>GHashTableIter\<close> visits the keys of a table (GLib's, not fixed by the sources).
\<close>

record sc_consts =
  sc_type_node :: sc_type
  sc_type_link :: sc_type
  sc_type_arc_common :: sc_type
  sc_type_arc_mask :: sc_type
  sc_type_element_mask :: sc_type
  SC_ADDR_SEG_MAX :: nat
  SC_SEGMENT_CACHE_SIZE :: nat
  SC_SEGMENT_ELEMENTS_COUNT :: nat
  SC_CHECKSUM_LEN :: nat
  max_loaded_segments :: nat
  table_iter :: "sc_addr list \<Rightarrow> sc_addr list"

text \<open>
  The module-global state: \<^verbatim>\<open>segments\<close>, \<^verbatim>\<open>segments_num\<close>, the cache with its lock and
  counter, and the log of the event sink. A memory context is modelled by its \<^verbatim>\<open>id\<close>.
\<close>

record sc_storage =
  segments :: "nat \<Rightarrow> sc_segment option"
  segments_num :: nat
  segments_cache_lock_ctx :: "nat option"
  segments_cache_count :: int
  segments_cache :: "nat \<Rightarrow> nat option"
  event_log :: "sc_notification list"

text \<open>
  A call either returns or stops at a failed \<^verbatim>\<open>g_assert\<close> (also the one inside
  \<^verbatim>\<open>STORAGE_CHECK_CALL\<close>). A call that may loop forever returns an \<open>option\<close> on top:
  \<open>None\<close> is "never returns".
\<close>

datatype 'a outcome = Aborted | Returned 'a

subsection \<open>Element access through a pointer\<close>

text \<open>
  Reading and writing through an element pointer. A pointer is only obtained from a lock
  on a published segment, and segments are never unpublished, so the \<open>None\<close> branches are
  not reached.
\<close>

definition el_get :: "sc_storage \<Rightarrow> sc_addr \<Rightarrow> sc_element" where
  "el_get s a = (case segments s (seg a) of
       None \<Rightarrow> undefined
     | Some sg \<Rightarrow> elements sg (offset a))"

definition el_upd :: "sc_storage \<Rightarrow> sc_addr \<Rightarrow> (sc_element \<Rightarrow> sc_element) \<Rightarrow> sc_storage" where
  "el_upd s a f = (case segments s (seg a) of
       None \<Rightarrow> s
     | Some sg \<Rightarrow>
         s\<lparr>segments := (segments s)
              (seg a \<mapsto> sg\<lparr>elements := (elements sg)(offset a := f (elements sg (offset a)))\<rparr>)\<rparr>)"

definition lock_count :: "sc_storage \<Rightarrow> sc_addr \<Rightarrow> nat" where
  "lock_count s a = (case segments s (seg a) of
       None \<Rightarrow> 0
     | Some sg \<Rightarrow> locks sg (offset a))"

subsection \<open>Segment primitives\<close>

text \<open>
  Modelled from the spec: \<^verbatim>\<open>sc_segment_lock_element\<close> and
  \<^verbatim>\<open>sc_segment_lock_element_try\<close> (\<^verbatim>\<open>sc_segment.c\<close> is missing): "acquires the per-slot
  lock"; the try variant fails only when the lock stays busy, which needs a second
  context. Both acquire the lock of the slot and return the element.
\<close>

definition sc_segment_lock_element :: "sc_segment \<Rightarrow> nat \<Rightarrow> sc_segment" where
  "sc_segment_lock_element sg off = sg\<lparr>locks := (locks sg)(off := locks sg off + 1)\<rparr>"

text \<open>
  Modelled from the spec: \<^verbatim>\<open>sc_segment_unlock_element\<close> (\<^verbatim>\<open>sc_segment.c\<close> is missing):
  gives one acquisition back.
\<close>

definition sc_segment_unlock_element :: "sc_segment \<Rightarrow> nat \<Rightarrow> sc_segment" where
  "sc_segment_unlock_element sg off = sg\<lparr>locks := (locks sg)(off := locks sg off - 1)\<rparr>"

subsection \<open>Locking by address\<close>

text \<open>
  \<^verbatim>\<open>sc_storage_element_lock\<close>: the result code, the element pointer written to \<^verbatim>\<open>*el\<close>
  (\<open>None\<close> is the null pointer) and the storage.
\<close>

definition sc_storage_element_lock ::
  "sc_consts \<Rightarrow> nat \<Rightarrow> sc_addr \<Rightarrow> sc_storage \<Rightarrow> sc_result \<times> sc_addr option \<times> sc_storage" where
  "sc_storage_element_lock K ctx addr s =
     (if seg addr \<ge> SC_ADDR_SEG_MAX K then (SC_RESULT_ERROR, None, s)
      else (case segments s (seg addr) of
          None \<Rightarrow> (SC_RESULT_ERROR, None, s)
        | Some segment \<Rightarrow>
            (SC_RESULT_OK, Some addr,
             s\<lparr>segments := (segments s)(seg addr \<mapsto> sc_segment_lock_element segment (offset addr))\<rparr>)))"

definition sc_storage_element_lock_try ::
  "sc_consts \<Rightarrow> nat \<Rightarrow> sc_addr \<Rightarrow> nat \<Rightarrow> sc_storage \<Rightarrow> sc_result \<times> sc_addr option \<times> sc_storage" where
  "sc_storage_element_lock_try K ctx addr max_attempts s =
     (if seg addr \<ge> SC_ADDR_SEG_MAX K then (SC_RESULT_ERROR, None, s)
      else (case segments s (seg addr) of
          None \<Rightarrow> (SC_RESULT_ERROR, None, s)
        | Some segment \<Rightarrow>
            (SC_RESULT_OK, Some addr,
             s\<lparr>segments := (segments s)(seg addr \<mapsto> sc_segment_lock_element segment (offset addr))\<rparr>)))"

definition sc_storage_element_unlock ::
  "sc_consts \<Rightarrow> nat \<Rightarrow> sc_addr \<Rightarrow> sc_storage \<Rightarrow> sc_result \<times> sc_storage" where
  "sc_storage_element_unlock K ctx addr s =
     (if seg addr \<ge> SC_ADDR_SEG_MAX K then (SC_RESULT_ERROR, s)
      else (case segments s (seg addr) of
          None \<Rightarrow> (SC_RESULT_ERROR, s)
        | Some segment \<Rightarrow>
            (SC_RESULT_OK,
             s\<lparr>segments := (segments s)(seg addr \<mapsto> sc_segment_unlock_element segment (offset addr))\<rparr>)))"

definition s_max_storage_lock_attempts :: nat where
  "s_max_storage_lock_attempts = 100"

subsection \<open>Reading and changing the type\<close>

text \<open>
  \<^verbatim>\<open>sc_storage_get_element_type\<close>: the result code, the value written to \<^verbatim>\<open>*result\<close>
  (\<open>None\<close> when nothing is written) and the storage.
\<close>

definition sc_storage_get_element_type ::
  "sc_consts \<Rightarrow> nat \<Rightarrow> sc_addr \<Rightarrow> sc_storage \<Rightarrow> sc_result \<times> sc_type option \<times> sc_storage" where
  "sc_storage_get_element_type K ctx addr s =
     (case sc_storage_element_lock K ctx addr s of (r, el, s1) \<Rightarrow>
        if r \<noteq> SC_RESULT_OK then (SC_RESULT_ERROR, None, s1)
        else (case el of
            None \<Rightarrow> (SC_RESULT_ERROR, None, s1)
          | Some p \<Rightarrow>
              (case sc_storage_element_unlock K ctx addr s1 of (r2, s2) \<Rightarrow>
                 (r2, Some (el_type (el_get s1 p)), s2))))"

definition sc_storage_change_element_subtype ::
  "sc_consts \<Rightarrow> nat \<Rightarrow> sc_addr \<Rightarrow> sc_type \<Rightarrow> sc_storage \<Rightarrow> sc_result \<times> sc_storage" where
  "sc_storage_change_element_subtype K ctx addr type s =
     (if type AND sc_type_element_mask K \<noteq> 0 then (SC_RESULT_ERROR_INVALID_PARAMS, s)
      else (case sc_storage_element_lock K ctx addr s of (r, el, s1) \<Rightarrow>
        if r \<noteq> SC_RESULT_OK then (SC_RESULT_ERROR, s1)
        else (case el of
            None \<Rightarrow> (SC_RESULT_ERROR, s1)
          | Some p \<Rightarrow>
              sc_storage_element_unlock K ctx addr
                (el_upd s1 p (\<lambda>e. e\<lparr>el_type :=
                   (el_type e AND sc_type_element_mask K) OR (type AND NOT (sc_type_element_mask K))\<rparr>)))))"

subsection \<open>Segment construction and the search for an empty slot\<close>

definition sc_element_zero :: "sc_consts \<Rightarrow> sc_element" where
  "sc_element_zero K =
     \<lparr>el_type = 0, first_out_arc = SC_ADDR_EMPTY, first_in_arc = SC_ADDR_EMPTY,
      arc_begin = SC_ADDR_EMPTY, arc_end = SC_ADDR_EMPTY,
      arc_next_out_arc = SC_ADDR_EMPTY, arc_prev_out_arc = SC_ADDR_EMPTY,
      arc_next_in_arc = SC_ADDR_EMPTY, arc_prev_in_arc = SC_ADDR_EMPTY,
      content_data = replicate (SC_CHECKSUM_LEN K) 0\<rparr>"

text \<open>
  Modelled from the spec: \<^verbatim>\<open>sc_segment_new\<close> (\<^verbatim>\<open>sc_segment.c\<close> is missing): "slots are
  created empty when a segment is constructed".
\<close>

definition sc_segment_new :: "sc_consts \<Rightarrow> nat \<Rightarrow> sc_segment" where
  "sc_segment_new K num = \<lparr>elements = (\<lambda>_. sc_element_zero K), locks = (\<lambda>_. 0)\<rparr>"

text \<open>
  Modelled from the spec: \<^verbatim>\<open>sc_segment_lock_empty_element\<close> (\<^verbatim>\<open>sc_segment.c\<close> is
  missing): "finds a slot with \<^verbatim>\<open>type == 0\<close>, acquires its lock, returns a mutable
  reference; returns none if no slot is free". The spec does not say which free slot; the
  model takes the one of lowest offset. The empty address is reserved, so the slot that it
  would name is never handed out.
\<close>

function first_empty_from :: "sc_consts \<Rightarrow> nat \<Rightarrow> sc_segment \<Rightarrow> nat \<Rightarrow> nat option" where
  "first_empty_from K num sg i =
     (if i < SC_SEGMENT_ELEMENTS_COUNT K then
        (if el_type (elements sg i) = 0 \<and> \<not> SC_ADDR_IS_EMPTY \<lparr>seg = num, offset = i\<rparr>
         then Some i
         else first_empty_from K num sg (i + 1))
      else None)"
  by pat_completeness auto
termination
  by (relation "measure (\<lambda>(K, num, sg, i). SC_SEGMENT_ELEMENTS_COUNT K - i)") auto

declare first_empty_from.simps [simp del]

definition sc_segment_lock_empty_element ::
  "sc_consts \<Rightarrow> nat \<Rightarrow> sc_segment \<Rightarrow> (nat \<times> sc_segment) option" where
  "sc_segment_lock_empty_element K num sg =
     (case first_empty_from K num sg 0 of
        None \<Rightarrow> None
      | Some off \<Rightarrow> Some (off, sc_segment_lock_element sg off))"

text \<open>
  Modelled from the spec: \<^verbatim>\<open>sc_segment_has_empty_slot\<close> (\<^verbatim>\<open>sc_segment.c\<close> is missing):
  a hint with no false positives; the model answers exactly.
\<close>

definition sc_segment_has_empty_slot :: "sc_consts \<Rightarrow> nat \<Rightarrow> sc_segment \<Rightarrow> bool" where
  "sc_segment_has_empty_slot K num sg = (first_empty_from K num sg 0 \<noteq> None)"

text \<open>
  Modelled from the spec: \<^verbatim>\<open>sc_segment_erase_element\<close> (\<^verbatim>\<open>sc_segment.c\<close> is missing):
  "zeros \<^verbatim>\<open>type\<close> under the assumption the caller holds the lock; releases the lock on
  success".
\<close>

definition sc_segment_erase_element :: "sc_segment \<Rightarrow> nat \<Rightarrow> sc_segment" where
  "sc_segment_erase_element sg off =
     sc_segment_unlock_element
       (sg\<lparr>elements := (elements sg)(off := (elements sg off)\<lparr>el_type := 0\<rparr>)\<rparr>) off"

subsection \<open>The cache of segments that have empty slots\<close>

text \<open>
  \<^verbatim>\<open>segments_cache\<close> is declared with \<^verbatim>\<open>SC_SEGMENT_CACHE_SIZE\<close> entries, so that constant
  is positive and the remainder below is defined in C.
\<close>

definition CONCURRENCY_TO_CACHE_IDX :: "sc_consts \<Rightarrow> nat \<Rightarrow> nat" where
  "CONCURRENCY_TO_CACHE_IDX K x = x mod SC_SEGMENT_CACHE_SIZE K"

text \<open>\<^verbatim>\<open>_sc_segment_cache_lock\<close> spins until the lock is free: forever when it is held.\<close>

definition sc_segment_cache_lock :: "nat \<Rightarrow> sc_storage \<Rightarrow> sc_storage option" where
  "sc_segment_cache_lock ctx s =
     (case segments_cache_lock_ctx s of
        None \<Rightarrow> Some (s\<lparr>segments_cache_lock_ctx := Some ctx\<rparr>)
      | Some _ \<Rightarrow> None)"

definition sc_segment_cache_unlock :: "nat \<Rightarrow> sc_storage \<Rightarrow> sc_storage outcome" where
  "sc_segment_cache_unlock ctx s =
     (if segments_cache_lock_ctx s = Some ctx
      then Returned (s\<lparr>segments_cache_lock_ctx := None\<rparr>)
      else Aborted)"

function sc_segment_cache_append_from ::
  "sc_consts \<Rightarrow> nat \<Rightarrow> nat \<Rightarrow> nat \<Rightarrow> sc_storage \<Rightarrow> sc_storage" where
  "sc_segment_cache_append_from K idx sg i s =
     (if i < SC_SEGMENT_CACHE_SIZE K then
        (if segments_cache s ((idx + i) mod SC_SEGMENT_CACHE_SIZE K) = None
         then s\<lparr>segments_cache :=
                  (segments_cache s)((idx + i) mod SC_SEGMENT_CACHE_SIZE K := Some sg),
                segments_cache_count := segments_cache_count s + 1\<rparr>
         else sc_segment_cache_append_from K idx sg (i + 1) s)
      else s)"
  by pat_completeness auto
termination
  by (relation "measure (\<lambda>(K, idx, sg, i, s). SC_SEGMENT_CACHE_SIZE K - i)") auto

declare sc_segment_cache_append_from.simps [simp del]

definition sc_segment_cache_append :: "sc_consts \<Rightarrow> nat \<Rightarrow> nat \<Rightarrow> sc_storage \<Rightarrow> sc_storage" where
  "sc_segment_cache_append K ctx sg s =
     sc_segment_cache_append_from K (CONCURRENCY_TO_CACHE_IDX K ctx) sg 0 s"

function sc_segment_cache_remove_from ::
  "sc_consts \<Rightarrow> nat \<Rightarrow> nat \<Rightarrow> nat \<Rightarrow> sc_storage \<Rightarrow> sc_storage" where
  "sc_segment_cache_remove_from K idx sg i s =
     (if i < SC_SEGMENT_CACHE_SIZE K then
        (if segments_cache s ((idx + i) mod SC_SEGMENT_CACHE_SIZE K) = Some sg
         then s\<lparr>segments_cache :=
                  (segments_cache s)((idx + i) mod SC_SEGMENT_CACHE_SIZE K := None),
                segments_cache_count := segments_cache_count s - 1\<rparr>
         else sc_segment_cache_remove_from K idx sg (i + 1) s)
      else s)"
  by pat_completeness auto
termination
  by (relation "measure (\<lambda>(K, idx, sg, i, s). SC_SEGMENT_CACHE_SIZE K - i)") auto

declare sc_segment_cache_remove_from.simps [simp del]

definition sc_segment_cache_remove :: "sc_consts \<Rightarrow> nat \<Rightarrow> nat \<Rightarrow> sc_storage \<Rightarrow> sc_storage" where
  "sc_segment_cache_remove K ctx sg s =
     sc_segment_cache_remove_from K (CONCURRENCY_TO_CACHE_IDX K ctx) sg 0 s"

text \<open>
  \<^verbatim>\<open>_sc_segment_cache_update\<close>: the loop over the segment table. The bound
  \<^verbatim>\<open>segments_num\<close> is re-read at every iteration in the source; nothing in the loop
  changes it, so it is read once here.
\<close>

fun sc_segment_cache_update_loop ::
  "sc_consts \<Rightarrow> nat \<Rightarrow> nat list \<Rightarrow> sc_storage \<Rightarrow> sc_storage" where
  "sc_segment_cache_update_loop K ctx [] s = s"
| "sc_segment_cache_update_loop K ctx (i # is) s =
     (let s1 = (case segments s i of
                  None \<Rightarrow> s
                | Some sg \<Rightarrow>
                    if sc_segment_has_empty_slot K i sg then sc_segment_cache_append K ctx i s
                    else s)
      in if segments_cache_count s1 = int (SC_SEGMENT_CACHE_SIZE K) then s1
         else sc_segment_cache_update_loop K ctx is s1)"

definition sc_segment_cache_update :: "sc_consts \<Rightarrow> nat \<Rightarrow> sc_storage \<Rightarrow> sc_storage" where
  "sc_segment_cache_update K ctx s = sc_segment_cache_update_loop K ctx [0..<segments_num s] s"

function sc_segment_cache_find_from :: "sc_consts \<Rightarrow> nat \<Rightarrow> nat \<Rightarrow> sc_storage \<Rightarrow> nat option" where
  "sc_segment_cache_find_from K idx i s =
     (if i < SC_SEGMENT_CACHE_SIZE K then
        (case segments_cache s ((idx + i) mod SC_SEGMENT_CACHE_SIZE K) of
           Some sg \<Rightarrow> Some sg
         | None \<Rightarrow> sc_segment_cache_find_from K idx (i + 1) s)
      else None)"
  by pat_completeness auto
termination
  by (relation "measure (\<lambda>(K, idx, i, s). SC_SEGMENT_CACHE_SIZE K - i)") auto

declare sc_segment_cache_find_from.simps [simp del]

text \<open>
  \<^verbatim>\<open>_sc_segment_cache_get\<close>: a cached segment when the counter is positive and an entry is
  found; otherwise the cache is updated and a new segment is created, published and
  returned. Writing \<^verbatim>\<open>segments[seg_num]\<close> at or beyond \<^verbatim>\<open>SC_ADDR_SEG_MAX\<close> is outside the
  array allocated by \<^verbatim>\<open>sc_storage_initialize\<close>: the model stops there.
\<close>

definition sc_segment_cache_get ::
  "sc_consts \<Rightarrow> nat \<Rightarrow> sc_storage \<Rightarrow> (nat option \<times> sc_storage) outcome option" where
  "sc_segment_cache_get K ctx s =
     (case sc_segment_cache_lock ctx s of
        None \<Rightarrow> None
      | Some s1 \<Rightarrow>
          (case (if segments_cache_count s1 > 0
                 then sc_segment_cache_find_from K (CONCURRENCY_TO_CACHE_IDX K ctx) 0 s1
                 else None) of
             Some sg \<Rightarrow>
               (case sc_segment_cache_unlock ctx s1 of
                  Aborted \<Rightarrow> Some Aborted
                | Returned s2 \<Rightarrow> Some (Returned (Some sg, s2)))
           | None \<Rightarrow>
               (let s2 = sc_segment_cache_update K ctx s1;
                    seg_num = segments_num s2;
                    s3 = s2\<lparr>segments_num := seg_num + 1\<rparr>
                in if seg_num \<ge> SC_ADDR_SEG_MAX K then Some Aborted
                   else (let s4 = s3\<lparr>segments := (segments s3)(seg_num \<mapsto> sc_segment_new K seg_num)\<rparr>;
                             s5 = sc_segment_cache_append K ctx seg_num s4
                         in (case sc_segment_cache_unlock ctx s5 of
                               Aborted \<Rightarrow> Some Aborted
                             | Returned s6 \<Rightarrow> Some (Returned (Some seg_num, s6)))))))"

subsection \<open>Allocation\<close>

text \<open>
  \<^verbatim>\<open>sc_storage_append_el_into_segments\<close>. The inner declaration of \<^verbatim>\<open>seg\<close> shadows the
  one the \<^verbatim>\<open>while\<close> tests, which keeps the value \<^verbatim>\<open>0x1\<close>: the loop runs until it returns
  or breaks. The result is the element pointer, the address written to \<^verbatim>\<open>*addr\<close> and the
  storage.
\<close>

partial_function (option) append_el_loop ::
  "sc_consts \<Rightarrow> nat \<Rightarrow> sc_element \<Rightarrow> sc_storage \<Rightarrow> (sc_addr option \<times> sc_addr \<times> sc_storage) outcome option"
  where
  "append_el_loop K ctx element s =
     (case sc_segment_cache_get K ctx s of
        None \<Rightarrow> None
      | Some Aborted \<Rightarrow> Some Aborted
      | Some (Returned (None, s1)) \<Rightarrow> Some (Returned (None, SC_ADDR_EMPTY, s1))
      | Some (Returned (Some k, s1)) \<Rightarrow>
          (case segments s1 k of
             None \<Rightarrow> Some Aborted
           | Some sg \<Rightarrow>
               (case sc_segment_lock_empty_element K k sg of
                  Some (off, sg1) \<Rightarrow>
                    Some (Returned (Some \<lparr>seg = k, offset = off\<rparr>, \<lparr>seg = k, offset = off\<rparr>,
                      s1\<lparr>segments := (segments s1)
                           (k \<mapsto> sg1\<lparr>elements := (elements sg1)(off := element)\<rparr>)\<rparr>))
                | None \<Rightarrow> append_el_loop K ctx element (sc_segment_cache_remove K ctx k s1))))"

definition sc_storage_append_el_into_segments ::
  "sc_consts \<Rightarrow> nat \<Rightarrow> sc_element \<Rightarrow> sc_storage \<Rightarrow> (sc_addr option \<times> sc_addr \<times> sc_storage) outcome option"
  where
  "sc_storage_append_el_into_segments K ctx element s =
     (if segments_num s \<ge> max_loaded_segments K then Some (Returned (None, SC_ADDR_EMPTY, s))
      else append_el_loop K ctx element s)"

subsection \<open>Creating nodes and links\<close>

text \<open>
  \<^verbatim>\<open>STORAGE_CHECK_CALL\<close> (a macro of a missing header) is read as the assertion that the
  call returned \<^verbatim>\<open>SC_RESULT_OK\<close>.
\<close>

definition sc_storage_node_new ::
  "sc_consts \<Rightarrow> nat \<Rightarrow> sc_type \<Rightarrow> sc_storage \<Rightarrow> (sc_addr \<times> sc_storage) outcome option" where
  "sc_storage_node_new K ctx type s =
     (if sc_type_arc_mask K AND type \<noteq> 0 then Some Aborted
      else (case sc_storage_append_el_into_segments K ctx
                   ((sc_element_zero K)\<lparr>el_type := sc_type_node K OR type\<rparr>) s of
              None \<Rightarrow> None
            | Some Aborted \<Rightarrow> Some Aborted
            | Some (Returned (None, addr, s1)) \<Rightarrow> Some (Returned (SC_ADDR_EMPTY, s1))
            | Some (Returned (Some locked_el, addr, s1)) \<Rightarrow>
                (case sc_storage_element_unlock K ctx addr s1 of (r, s2) \<Rightarrow>
                   if r = SC_RESULT_OK then Some (Returned (addr, s2)) else Some Aborted)))"

definition sc_storage_link_new ::
  "sc_consts \<Rightarrow> nat \<Rightarrow> sc_storage \<Rightarrow> (sc_addr \<times> sc_storage) outcome option" where
  "sc_storage_link_new K ctx s =
     (case sc_storage_append_el_into_segments K ctx
             ((sc_element_zero K)\<lparr>el_type := sc_type_link K\<rparr>) s of
        None \<Rightarrow> None
      | Some Aborted \<Rightarrow> Some Aborted
      | Some (Returned (None, addr, s1)) \<Rightarrow> Some (Returned (SC_ADDR_EMPTY, s1))
      | Some (Returned (Some locked_el, addr, s1)) \<Rightarrow>
          (case sc_storage_element_unlock K ctx addr s1 of (r, s2) \<Rightarrow>
             if r = SC_RESULT_OK then Some (Returned (addr, s2)) else Some Aborted))"

subsection \<open>Creating arcs\<close>

text \<open>
  The block after the label \<^verbatim>\<open>unlock:\<close> of \<^verbatim>\<open>sc_storage_arc_new\<close>, given the pointers
  the attempt holds at that point.
\<close>

definition arc_new_unlock ::
  "sc_consts \<Rightarrow> nat \<Rightarrow> sc_addr \<Rightarrow> sc_addr \<Rightarrow> sc_addr \<Rightarrow> sc_addr \<Rightarrow>
   sc_addr option \<Rightarrow> sc_addr option \<Rightarrow> sc_addr option \<Rightarrow> sc_addr option \<Rightarrow> sc_addr option \<Rightarrow>
   sc_addr \<Rightarrow> sc_storage \<Rightarrow> sc_storage" where
  "arc_new_unlock K ctx beg end_addr first_out first_in beg_el end_el f_out_arc f_in_arc tmp_el addr s =
     (let s1 = (case beg_el of
                  None \<Rightarrow> s
                | Some _ \<Rightarrow>
                    snd (sc_storage_element_unlock K ctx beg
                      (case f_out_arc of
                         None \<Rightarrow> s
                       | Some _ \<Rightarrow> snd (sc_storage_element_unlock K ctx first_out s))));
          s2 = (case end_el of
                  None \<Rightarrow> s1
                | Some _ \<Rightarrow>
                    snd (sc_storage_element_unlock K ctx end_addr
                      (case f_in_arc of
                         None \<Rightarrow> s1
                       | Some _ \<Rightarrow> snd (sc_storage_element_unlock K ctx first_in s1))))
      in (case tmp_el of
            None \<Rightarrow> s2
          | Some _ \<Rightarrow> snd (sc_storage_element_unlock K ctx addr s2)))"

definition sc_event_emit :: "sc_addr \<Rightarrow> sc_event_type \<Rightarrow> sc_addr \<Rightarrow> sc_storage \<Rightarrow> sc_storage" where
  "sc_event_emit el t arg s = s\<lparr>event_log := event_log s @ [Event_emit el t arg]\<rparr>"

definition sc_event_notify_element_deleted :: "sc_addr \<Rightarrow> sc_storage \<Rightarrow> sc_storage" where
  "sc_event_notify_element_deleted a s = s\<lparr>event_log := event_log s @ [Element_deleted a]\<rparr>"

text \<open>
  The assignments of lines 635 to 647 of \<^verbatim>\<open>sc_storage_arc_new\<close>: the new element
  \<^verbatim>\<open>tmp_el\<close> gets the old heads as its successors, the old heads get the new address as
  their predecessor, and the new address becomes the head of both lists.
\<close>

definition arc_new_relink ::
  "sc_addr \<Rightarrow> sc_addr \<Rightarrow> sc_addr \<Rightarrow> sc_addr \<Rightarrow> sc_addr \<Rightarrow> sc_addr option \<Rightarrow> sc_addr option \<Rightarrow>
   sc_addr \<Rightarrow> sc_storage \<Rightarrow> sc_storage" where
  "arc_new_relink beg_el end_el tmp_el first_out first_in f_out_arc f_in_arc addr s =
     (let s1 = el_upd s tmp_el (\<lambda>e. e\<lparr>arc_next_out_arc := first_out\<rparr>);
          s2 = el_upd s1 tmp_el (\<lambda>e. e\<lparr>arc_next_in_arc := first_in\<rparr>);
          s3 = (case f_out_arc of
                  None \<Rightarrow> s2
                | Some fp \<Rightarrow> el_upd s2 fp (\<lambda>e. e\<lparr>arc_prev_out_arc := addr\<rparr>));
          s4 = (case f_in_arc of
                  None \<Rightarrow> s3
                | Some fp \<Rightarrow> el_upd s3 fp (\<lambda>e. e\<lparr>arc_prev_in_arc := addr\<rparr>));
          s5 = el_upd s4 beg_el (\<lambda>e. e\<lparr>first_out_arc := addr\<rparr>)
      in el_upd s5 end_el (\<lambda>e. e\<lparr>first_in_arc := addr\<rparr>))"

text \<open>
  The part of one pass through the \<^verbatim>\<open>while\<close> body of \<^verbatim>\<open>sc_storage_arc_new\<close> that
  follows the four locks: allocation, events, assertions, list surgery, then the unlock
  block. The result is \<^verbatim>\<open>r\<close>, \<^verbatim>\<open>addr\<close> and the storage. The assertion of line 638
  compares addresses only, so it is taken before the two assignments of lines 635 and 636.
\<close>

definition arc_new_link ::
  "sc_consts \<Rightarrow> nat \<Rightarrow> sc_element \<Rightarrow> sc_addr \<Rightarrow> sc_addr \<Rightarrow> sc_result \<Rightarrow>
   sc_addr \<Rightarrow> sc_addr \<Rightarrow> sc_addr \<Rightarrow> sc_addr \<Rightarrow> sc_addr option \<Rightarrow> sc_addr option \<Rightarrow>
   sc_storage \<Rightarrow> (sc_result \<times> sc_addr \<times> sc_storage) outcome option" where
  "arc_new_link K ctx el beg end_addr r bp ep first_out first_in f_out_arc f_in_arc s =
     (case sc_storage_append_el_into_segments K ctx el s of
        None \<Rightarrow> None
      | Some Aborted \<Rightarrow> Some Aborted
      | Some (Returned (None, addr, s5)) \<Rightarrow> Some Aborted
      | Some (Returned (Some tp, addr, s5)) \<Rightarrow>
          if SC_ADDR_IS_EQUAL addr first_in then Some Aborted
          else (let s6 = sc_event_emit end_addr SC_EVENT_ADD_INPUT_ARC addr
                           (sc_event_emit beg SC_EVENT_ADD_OUTPUT_ARC addr s5)
                in if el_type (el_get s6 bp) = 0 \<or> el_type (el_get s6 ep) = 0 then Some Aborted
                   else if SC_ADDR_IS_EQUAL addr first_out \<or> SC_ADDR_IS_EQUAL addr first_in
                   then Some Aborted
                   else Some (Returned (r, addr,
                          arc_new_unlock K ctx beg end_addr first_out first_in
                            (Some bp) (Some ep) f_out_arc f_in_arc (Some tp) addr
                            (arc_new_relink bp ep tp first_out first_in f_out_arc f_in_arc
                               addr s6)))))"

text \<open>One pass through the \<^verbatim>\<open>while\<close> body, up to the end of the unlock block.\<close>

definition arc_new_attempt ::
  "sc_consts \<Rightarrow> nat \<Rightarrow> sc_element \<Rightarrow> sc_addr \<Rightarrow> sc_addr \<Rightarrow> sc_storage \<Rightarrow>
   (sc_result \<times> sc_addr \<times> sc_storage) outcome option" where
  "arc_new_attempt K ctx el beg end_addr s =
     (case sc_storage_element_lock_try K ctx beg s_max_storage_lock_attempts s of
        (r, None, s1) \<Rightarrow>
          Some (Returned (r, SC_ADDR_EMPTY,
            arc_new_unlock K ctx beg end_addr SC_ADDR_EMPTY SC_ADDR_EMPTY
              None None None None None SC_ADDR_EMPTY s1))
      | (r, Some bp, s1) \<Rightarrow>
          (case sc_storage_element_lock_try K ctx end_addr s_max_storage_lock_attempts s1 of
             (r, None, s2) \<Rightarrow>
               Some (Returned (r, SC_ADDR_EMPTY,
                 arc_new_unlock K ctx beg end_addr SC_ADDR_EMPTY SC_ADDR_EMPTY
                   (Some bp) None None None None SC_ADDR_EMPTY s2))
           | (r, Some ep, s2) \<Rightarrow>
               (let first_out = first_out_arc (el_get s2 bp)
                in (case (if SC_ADDR_IS_NOT_EMPTY first_out
                          then sc_storage_element_lock_try K ctx first_out s_max_storage_lock_attempts s2
                          else (r, None, s2)) of
                      (r, f_out_arc, s3) \<Rightarrow>
                        if SC_ADDR_IS_NOT_EMPTY first_out \<and> f_out_arc = None
                        then Some (Returned (r, SC_ADDR_EMPTY,
                               arc_new_unlock K ctx beg end_addr first_out SC_ADDR_EMPTY
                                 (Some bp) (Some ep) None None None SC_ADDR_EMPTY s3))
                        else (let first_in = first_in_arc (el_get s3 ep)
                              in (case (if SC_ADDR_IS_NOT_EMPTY first_in
                                        then sc_storage_element_lock_try K ctx first_in
                                               s_max_storage_lock_attempts s3
                                        else (r, None, s3)) of
                                    (r, f_in_arc, s4) \<Rightarrow>
                                      if SC_ADDR_IS_NOT_EMPTY first_in \<and> f_in_arc = None
                                      then Some (Returned (r, SC_ADDR_EMPTY,
                                             arc_new_unlock K ctx beg end_addr first_out first_in
                                               (Some bp) (Some ep) f_out_arc None None SC_ADDR_EMPTY s4))
                                      else arc_new_link K ctx el beg end_addr r bp ep
                                             first_out first_in f_out_arc f_in_arc s4))))))"

partial_function (option) arc_new_loop ::
  "sc_consts \<Rightarrow> nat \<Rightarrow> sc_element \<Rightarrow> sc_addr \<Rightarrow> sc_addr \<Rightarrow> sc_storage \<Rightarrow>
   (sc_addr \<times> sc_storage) outcome option" where
  "arc_new_loop K ctx el beg end_addr s =
     (case arc_new_attempt K ctx el beg end_addr s of
        None \<Rightarrow> None
      | Some Aborted \<Rightarrow> Some Aborted
      | Some (Returned (r, addr, s1)) \<Rightarrow>
          if r \<noteq> SC_RESULT_OK then Some (Returned (addr, s1))
          else if SC_ADDR_IS_EMPTY addr then arc_new_loop K ctx el beg end_addr s1
          else Some (Returned (addr, s1)))"

definition sc_storage_arc_new ::
  "sc_consts \<Rightarrow> nat \<Rightarrow> sc_type \<Rightarrow> sc_addr \<Rightarrow> sc_addr \<Rightarrow> sc_storage \<Rightarrow>
   (sc_addr \<times> sc_storage) outcome option" where
  "sc_storage_arc_new K ctx type beg end_addr s =
     (if sc_type_node K AND type \<noteq> 0 then Some Aborted
      else arc_new_loop K ctx
             ((sc_element_zero K)\<lparr>el_type :=
                  (if type AND sc_type_arc_mask K \<noteq> 0 then type else sc_type_arc_common K OR type),
                arc_begin := beg, arc_end := end_addr\<rparr>)
             beg end_addr s)"

subsection \<open>Freeing an element\<close>

text \<open>
  The two \<^verbatim>\<open>GHashTable\<close>s of \<^verbatim>\<open>sc_storage_element_free\<close> map a packed address to the
  pointer of the element locked at that address, which is the slot of that address. A
  table is therefore the list of its keys, without repetition, in insertion order;
  \<^verbatim>\<open>g_hash_table_lookup\<close> returns null exactly for an absent key. \<^verbatim>\<open>remove_list\<close> is
  the list of addresses still to visit.
\<close>

definition table_insert :: "sc_addr \<Rightarrow> sc_addr list \<Rightarrow> sc_addr list" where
  "table_insert a t = (if a \<in> set t then t else t @ [a])"

text \<open>
  The first traversal of the visit loop: \<^verbatim>\<open>_addr\<close> runs from \<^verbatim>\<open>el->first_out_arc\<close>
  along \<^verbatim>\<open>arc.next_out_arc\<close>. The state is the storage, \<^verbatim>\<open>remove_table\<close>,
  \<^verbatim>\<open>lock_table\<close> and \<^verbatim>\<open>remove_list\<close>.
\<close>

partial_function (option) free_collect_out ::
  "sc_consts \<Rightarrow> nat \<Rightarrow> sc_addr \<Rightarrow> sc_storage \<times> sc_addr list \<times> sc_addr list \<times> sc_addr list \<Rightarrow>
   (sc_storage \<times> sc_addr list \<times> sc_addr list \<times> sc_addr list) outcome option" where
  "free_collect_out K ctx a st =
     (if SC_ADDR_IS_NOT_EMPTY a then
        (case st of (s, remove_table, lock_table, remove_list) \<Rightarrow>
           if a \<in> set remove_table
           then free_collect_out K ctx (arc_next_out_arc (el_get s a)) st
           else (case sc_storage_element_lock K ctx a s of
                   (r, None, s1) \<Rightarrow> Some Aborted
                 | (r, Some el2, s1) \<Rightarrow>
                     free_collect_out K ctx (arc_next_out_arc (el_get s1 el2))
                       (s1, table_insert a remove_table, table_insert a lock_table,
                        remove_list @ [a])))
      else Some (Returned st))"

text \<open>The second traversal: from \<^verbatim>\<open>el->first_in_arc\<close> along \<^verbatim>\<open>arc.next_in_arc\<close>.\<close>

partial_function (option) free_collect_in ::
  "sc_consts \<Rightarrow> nat \<Rightarrow> sc_addr \<Rightarrow> sc_storage \<times> sc_addr list \<times> sc_addr list \<times> sc_addr list \<Rightarrow>
   (sc_storage \<times> sc_addr list \<times> sc_addr list \<times> sc_addr list) outcome option" where
  "free_collect_in K ctx a st =
     (if SC_ADDR_IS_NOT_EMPTY a then
        (case st of (s, remove_table, lock_table, remove_list) \<Rightarrow>
           if a \<in> set remove_table
           then free_collect_in K ctx (arc_next_in_arc (el_get s a)) st
           else (case sc_storage_element_lock K ctx a s of
                   (r, None, s1) \<Rightarrow> Some Aborted
                 | (r, Some el2, s1) \<Rightarrow>
                     free_collect_in K ctx (arc_next_in_arc (el_get s1 el2))
                       (s1, table_insert a remove_table, table_insert a lock_table,
                        remove_list @ [a])))
      else Some (Returned st))"

text \<open>
  Locking an element that \<^verbatim>\<open>lock_table\<close> does not hold yet:
  \<^verbatim>\<open>STORAGE_CHECK_CALL(sc_storage_element_lock(...))\<close>, the assertion that the element is
  not null, and the insertion into \<^verbatim>\<open>lock_table\<close>.
\<close>

definition free_lock_needed ::
  "sc_consts \<Rightarrow> nat \<Rightarrow> sc_addr \<Rightarrow> sc_storage \<times> sc_addr list \<Rightarrow> (sc_storage \<times> sc_addr list) outcome"
  where
  "free_lock_needed K ctx a st =
     (case st of (s, lock_table) \<Rightarrow>
        if a \<in> set lock_table then Returned st
        else (case sc_storage_element_lock K ctx a s of
                (r, None, s1) \<Rightarrow> Aborted
              | (r, Some el2, s1) \<Rightarrow>
                  if r \<noteq> SC_RESULT_OK then Aborted
                  else Returned (s1, table_insert a lock_table)))"

definition free_lock_neighbour ::
  "sc_consts \<Rightarrow> nat \<Rightarrow> sc_addr \<Rightarrow> sc_storage \<times> sc_addr list \<Rightarrow> (sc_storage \<times> sc_addr list) outcome"
  where
  "free_lock_neighbour K ctx a st =
     (if SC_ADDR_IS_NOT_EMPTY a then free_lock_needed K ctx a st else Returned st)"

text \<open>
  The arc branch of the visit loop (\<^verbatim>\<open>if (el->flags.type & sc_type_arc_mask)\<close>), for the
  arc at \<open>a\<close>: the two events, the locks on begin and end with the two assignments to
  their list heads, and the locks on the four neighbours in the lists.
\<close>

definition free_visit_arc ::
  "sc_consts \<Rightarrow> nat \<Rightarrow> sc_addr \<Rightarrow> sc_storage \<times> sc_addr list \<Rightarrow> (sc_storage \<times> sc_addr list) outcome"
  where
  "free_visit_arc K ctx a st =
     (case st of (s, lock_table) \<Rightarrow>
        (let s1 = sc_event_emit (arc_begin (el_get s a)) SC_EVENT_REMOVE_OUTPUT_ARC a s;
             s2 = sc_event_emit (arc_end (el_get s1 a)) SC_EVENT_REMOVE_INPUT_ARC a s1
         in (case free_lock_needed K ctx (arc_begin (el_get s2 a)) (s2, lock_table) of
               Aborted \<Rightarrow> Aborted
             | Returned (s3, lt3) \<Rightarrow>
                 (let s4 = el_upd s3 (arc_begin (el_get s3 a))
                             (\<lambda>e. e\<lparr>first_out_arc := arc_next_out_arc (el_get s3 a)\<rparr>)
                  in (case free_lock_needed K ctx (arc_end (el_get s4 a)) (s4, lt3) of
                        Aborted \<Rightarrow> Aborted
                      | Returned (s5, lt5) \<Rightarrow>
                          (let s6 = el_upd s5 (arc_end (el_get s5 a))
                                      (\<lambda>e. e\<lparr>first_in_arc := arc_next_in_arc (el_get s5 a)\<rparr>)
                           in (case free_lock_neighbour K ctx (arc_prev_out_arc (el_get s6 a)) (s6, lt5) of
                                 Aborted \<Rightarrow> Aborted
                               | Returned (s7, lt7) \<Rightarrow>
                                   (case free_lock_neighbour K ctx (arc_prev_in_arc (el_get s7 a)) (s7, lt7) of
                                      Aborted \<Rightarrow> Aborted
                                    | Returned (s8, lt8) \<Rightarrow>
                                        (case free_lock_neighbour K ctx (arc_next_out_arc (el_get s8 a)) (s8, lt8) of
                                           Aborted \<Rightarrow> Aborted
                                         | Returned (s9, lt9) \<Rightarrow>
                                             free_lock_neighbour K ctx (arc_next_in_arc (el_get s9 a))
                                               (s9, lt9))))))))))"

text \<open>
  The head of one iteration of the visit loop for the address \<open>a\<close> taken from
  \<^verbatim>\<open>remove_list\<close>: the lookup in \<^verbatim>\<open>lock_table\<close> (with the lock and the assertion
  \<^verbatim>\<open>el->flags.type != 0\<close> when absent), the notification, and the arc branch.
\<close>

definition free_visit ::
  "sc_consts \<Rightarrow> nat \<Rightarrow> sc_addr \<Rightarrow> sc_storage \<times> sc_addr list \<times> sc_addr list \<Rightarrow>
   (sc_storage \<times> sc_addr list \<times> sc_addr list) outcome" where
  "free_visit K ctx a st =
     (case st of (s, remove_table, lock_table) \<Rightarrow>
        (case (if a \<in> set lock_table then Returned (s, remove_table, lock_table)
               else (case sc_storage_element_lock K ctx a s of
                       (r, None, s1) \<Rightarrow> Aborted
                     | (r, Some el, s1) \<Rightarrow>
                         if r \<noteq> SC_RESULT_OK \<or> el_type (el_get s1 el) = 0 then Aborted
                         else Returned (s1, table_insert a remove_table, table_insert a lock_table))) of
           Aborted \<Rightarrow> Aborted
         | Returned (s1, rt1, lt1) \<Rightarrow>
             (let s2 = sc_event_notify_element_deleted a s1
              in if el_type (el_get s2 a) AND sc_type_arc_mask K \<noteq> 0
                 then (case free_visit_arc K ctx a (s2, lt1) of
                         Aborted \<Rightarrow> Aborted
                       | Returned (s3, lt3) \<Rightarrow> Returned (s3, rt1, lt3))
                 else Returned (s2, rt1, lt1))))"

text \<open>The visit loop \<^verbatim>\<open>while (remove_list != 0)\<close>.\<close>

partial_function (option) free_collect ::
  "sc_consts \<Rightarrow> nat \<Rightarrow> sc_addr list \<Rightarrow> sc_storage \<times> sc_addr list \<times> sc_addr list \<Rightarrow>
   (sc_storage \<times> sc_addr list \<times> sc_addr list) outcome option" where
  "free_collect K ctx remove_list st =
     (case remove_list of
        [] \<Rightarrow> Some (Returned st)
      | a # rest \<Rightarrow>
          (case free_visit K ctx a st of
             Aborted \<Rightarrow> Some Aborted
           | Returned (s1, rt1, lt1) \<Rightarrow>
               (case free_collect_out K ctx (first_out_arc (el_get s1 a)) (s1, rt1, lt1, rest) of
                  None \<Rightarrow> None
                | Some Aborted \<Rightarrow> Some Aborted
                | Some (Returned (s2, rt2, lt2, rl2)) \<Rightarrow>
                    (case free_collect_in K ctx (first_in_arc (el_get s2 a)) (s2, rt2, lt2, rl2) of
                       None \<Rightarrow> None
                     | Some Aborted \<Rightarrow> Some Aborted
                     | Some (Returned (s3, rt3, lt3, rl3)) \<Rightarrow>
                         free_collect K ctx rl3 (s3, rt3, lt3)))))"

text \<open>
  The element that \<^verbatim>\<open>lock_table\<close> holds for an endpoint of the erased arc, or a fresh
  lock on it (\<^verbatim>\<open>need_unlock\<close>).
\<close>

definition free_endpoint ::
  "sc_consts \<Rightarrow> nat \<Rightarrow> sc_addr \<Rightarrow> sc_addr list \<Rightarrow> sc_storage \<Rightarrow> (bool \<times> sc_storage) outcome" where
  "free_endpoint K ctx a lock_table s =
     (if a \<in> set lock_table then Returned (False, s)
      else (case sc_storage_element_lock K ctx a s of
              (r, None, s1) \<Rightarrow> Aborted
            | (r, Some p, s1) \<Rightarrow> if r \<noteq> SC_RESULT_OK then Aborted else Returned (True, s1)))"

text \<open>
  The arc branch of the erase loop for the arc at \<open>addr\<close>, first half: the arc is taken
  out of the output list. The result carries \<^verbatim>\<open>b_el\<close>, the pointer to the begin element,
  which the second half reads again.
\<close>

definition free_unlink_out ::
  "sc_consts \<Rightarrow> nat \<Rightarrow> sc_addr \<Rightarrow> sc_addr list \<Rightarrow> sc_storage \<Rightarrow> (sc_addr \<times> sc_storage) outcome"
  where
  "free_unlink_out K ctx addr lock_table s =
     (let prev_arc = arc_prev_out_arc (el_get s addr);
          next_arc = arc_next_out_arc (el_get s addr)
      in if SC_ADDR_IS_NOT_EMPTY prev_arc \<and> prev_arc \<notin> set lock_table then Aborted
         else (let s1 = (if SC_ADDR_IS_NOT_EMPTY prev_arc
                         then el_upd s prev_arc (\<lambda>e. e\<lparr>arc_next_out_arc := next_arc\<rparr>) else s)
               in if SC_ADDR_IS_NOT_EMPTY next_arc \<and> next_arc \<notin> set lock_table then Aborted
                  else (let s2 = (if SC_ADDR_IS_NOT_EMPTY next_arc
                                  then el_upd s1 next_arc (\<lambda>e. e\<lparr>arc_prev_out_arc := prev_arc\<rparr>)
                                  else s1);
                            b_el = arc_begin (el_get s2 addr)
                        in (case free_endpoint K ctx b_el lock_table s2 of
                              Aborted \<Rightarrow> Aborted
                            | Returned (need_unlock, s3) \<Rightarrow>
                                (let s4 = (if SC_ADDR_IS_EQUAL addr (first_out_arc (el_get s3 b_el))
                                           then el_upd s3 b_el (\<lambda>e. e\<lparr>first_out_arc := next_arc\<rparr>)
                                           else s3)
                                 in Returned (b_el,
                                      if need_unlock
                                      then snd (sc_storage_element_unlock K ctx
                                                  (arc_begin (el_get s4 addr)) s4)
                                      else s4))))))"

text \<open>
  Second half: the arc is taken out of the input list. The test before the assignment to
  \<^verbatim>\<open>e_el->first_in_arc\<close> reads \<^verbatim>\<open>b_el->first_in_arc\<close>, as the source does.
\<close>

definition free_unlink_in ::
  "sc_consts \<Rightarrow> nat \<Rightarrow> sc_addr \<Rightarrow> sc_addr \<Rightarrow> sc_addr list \<Rightarrow> sc_storage \<Rightarrow> sc_storage outcome"
  where
  "free_unlink_in K ctx addr b_el lock_table s =
     (let prev_arc = arc_prev_in_arc (el_get s addr);
          next_arc = arc_next_in_arc (el_get s addr)
      in if SC_ADDR_IS_NOT_EMPTY prev_arc \<and> prev_arc \<notin> set lock_table then Aborted
         else (let s1 = (if SC_ADDR_IS_NOT_EMPTY prev_arc
                         then el_upd s prev_arc (\<lambda>e. e\<lparr>arc_next_in_arc := next_arc\<rparr>) else s)
               in if SC_ADDR_IS_NOT_EMPTY next_arc \<and> next_arc \<notin> set lock_table then Aborted
                  else (let s2 = (if SC_ADDR_IS_NOT_EMPTY next_arc
                                  then el_upd s1 next_arc (\<lambda>e. e\<lparr>arc_prev_in_arc := prev_arc\<rparr>)
                                  else s1);
                            e_el = arc_end (el_get s2 addr)
                        in (case free_endpoint K ctx e_el lock_table s2 of
                              Aborted \<Rightarrow> Aborted
                            | Returned (need_unlock, s3) \<Rightarrow>
                                (let s4 = (if SC_ADDR_IS_EQUAL addr (first_in_arc (el_get s3 b_el))
                                           then el_upd s3 e_el (\<lambda>e. e\<lparr>first_in_arc := next_arc\<rparr>)
                                           else s3)
                                 in Returned
                                      (if need_unlock
                                       then snd (sc_storage_element_unlock K ctx
                                                   (arc_end (el_get s4 addr)) s4)
                                       else s4))))))"

definition free_unlink_arc ::
  "sc_consts \<Rightarrow> nat \<Rightarrow> sc_addr \<Rightarrow> sc_addr list \<Rightarrow> sc_storage \<Rightarrow> sc_storage outcome" where
  "free_unlink_arc K ctx addr lock_table s =
     (case free_unlink_out K ctx addr lock_table s of
        Aborted \<Rightarrow> Aborted
      | Returned (b_el, s1) \<Rightarrow> free_unlink_in K ctx addr b_el lock_table s1)"

text \<open>
  One iteration of the erase loop over \<^verbatim>\<open>remove_table\<close>: the arc branch, then
  \<^verbatim>\<open>sc_segment_erase_element\<close> on the segment of the address and the insertion of that
  segment into the cache.
\<close>

definition free_erase ::
  "sc_consts \<Rightarrow> nat \<Rightarrow> sc_addr \<Rightarrow> sc_addr list \<Rightarrow> sc_storage \<Rightarrow> sc_storage outcome" where
  "free_erase K ctx addr lock_table s =
     (case (if el_type (el_get s addr) AND sc_type_arc_mask K \<noteq> 0
            then free_unlink_arc K ctx addr lock_table s else Returned s) of
        Aborted \<Rightarrow> Aborted
      | Returned s1 \<Rightarrow>
          (case segments s1 (seg addr) of
             None \<Rightarrow> Aborted
           | Some sg \<Rightarrow>
               Returned (sc_segment_cache_append K ctx (seg addr)
                 (s1\<lparr>segments := (segments s1)
                       (seg addr \<mapsto> sc_segment_erase_element sg (offset addr))\<rparr>))))"

fun free_erase_all ::
  "sc_consts \<Rightarrow> nat \<Rightarrow> sc_addr list \<Rightarrow> sc_addr list \<Rightarrow> sc_storage \<Rightarrow> sc_storage outcome" where
  "free_erase_all K ctx [] lock_table s = Returned s"
| "free_erase_all K ctx (addr # keys) lock_table s =
     (case free_erase K ctx addr lock_table s of
        Aborted \<Rightarrow> Aborted
      | Returned s1 \<Rightarrow> free_erase_all K ctx keys lock_table s1)"

fun free_unlock_all :: "sc_consts \<Rightarrow> nat \<Rightarrow> sc_addr list \<Rightarrow> sc_storage \<Rightarrow> sc_storage" where
  "free_unlock_all K ctx [] s = s"
| "free_unlock_all K ctx (addr # keys) s =
     free_unlock_all K ctx keys (snd (sc_storage_element_unlock K ctx addr s))"

text \<open>
  Both loops over the tables assign each key they visit to the parameter \<^verbatim>\<open>addr\<close> of
  \<^verbatim>\<open>sc_storage_element_free\<close>: after a loop the variable holds the last key visited, or
  its old value when the loop visited none.
\<close>

definition last_key :: "sc_addr list \<Rightarrow> sc_addr \<Rightarrow> sc_addr" where
  "last_key keys addr = (case rev keys of [] \<Rightarrow> addr | k # _ \<Rightarrow> k)"

text \<open>
  \<^verbatim>\<open>sc_storage_element_free\<close>. The final
  \<^verbatim>\<open>sc_event_emit(addr, SC_EVENT_REMOVE_ELEMENT, addr)\<close> reads \<^verbatim>\<open>addr\<close> after both
  loops over the tables.
\<close>

definition sc_storage_element_free ::
  "sc_consts \<Rightarrow> nat \<Rightarrow> sc_addr \<Rightarrow> sc_storage \<Rightarrow> (sc_result \<times> sc_storage) outcome option" where
  "sc_storage_element_free K ctx addr s =
     (case sc_storage_element_lock K ctx addr s of
        (r, None, s1) \<Rightarrow> Some (Returned (SC_RESULT_ERROR, s1))
      | (r, Some el, s1) \<Rightarrow>
          if r \<noteq> SC_RESULT_OK then Some (Returned (SC_RESULT_ERROR, s1))
          else if el_type (el_get s1 el) = 0 then Some (Returned (SC_RESULT_ERROR, s1))
          else (case free_collect K ctx [addr] (s1, [addr], [addr]) of
                  None \<Rightarrow> None
                | Some Aborted \<Rightarrow> Some Aborted
                | Some (Returned (s2, remove_table, lock_table)) \<Rightarrow>
                    (case free_erase_all K ctx (table_iter K remove_table) lock_table s2 of
                       Aborted \<Rightarrow> Some Aborted
                     | Returned s3 \<Rightarrow>
                         (let s4 = free_unlock_all K ctx (table_iter K lock_table) s3;
                              last_addr = last_key (table_iter K lock_table)
                                            (last_key (table_iter K remove_table) addr)
                          in Some (Returned (SC_RESULT_OK,
                               sc_event_emit last_addr SC_EVENT_REMOVE_ELEMENT last_addr s4))))))"

subsection \<open>A concrete configuration and scripted runs\<close>

text \<open>
  An instance of the constants, used to evaluate the functions on concrete runs: one bit
  per element class (node, link, and three arc classes that make up the arc mask), a
  table of 65535 segments of 65535 slots, and keys visited in insertion order.
\<close>

definition K_std :: sc_consts where
  "K_std = \<lparr>sc_type_node = 0x1, sc_type_link = 0x2, sc_type_arc_common = 0x8,
            sc_type_arc_mask = 0x1C, sc_type_element_mask = 0x1F,
            SC_ADDR_SEG_MAX = 65535, SC_SEGMENT_CACHE_SIZE = 32,
            SC_SEGMENT_ELEMENTS_COUNT = 65535, SC_CHECKSUM_LEN = 32,
            max_loaded_segments = 1000, table_iter = (\<lambda>keys. keys)\<rparr>"

text \<open>
  The globals after \<^verbatim>\<open>sc_storage_initialize(path, SC_TRUE)\<close> with a persistence
  collaborator that succeeds: \<^verbatim>\<open>g_new0\<close> gives a table of null pointers, the cache is
  zeroed, the counters keep their initial value 0.
\<close>

definition storage_init :: sc_storage where
  "storage_init =
     \<lparr>segments = (\<lambda>_. None), segments_num = 0, segments_cache_lock_ctx = None,
      segments_cache_count = 0, segments_cache = (\<lambda>_. None), event_log = []\<rparr>"

text \<open>
  A script is a sequence of calls made by the context with id 0; an endpoint of an arc
  and the argument of a free is the position, in the list of addresses returned so far, of
  an earlier creation. The run keeps the addresses returned by the creations, the result
  codes returned by the frees, and the storage.
\<close>

datatype call = Node sc_type | Link | Arc sc_type nat nat | Free nat

fun run_script ::
  "sc_consts \<Rightarrow> call list \<Rightarrow> sc_addr list \<times> sc_result list \<times> sc_storage \<Rightarrow>
   (sc_addr list \<times> sc_result list \<times> sc_storage) outcome option" where
  "run_script K [] st = Some (Returned st)"
| "run_script K (Node t # cs) (as, rs, s) =
     (case sc_storage_node_new K 0 t s of
        None \<Rightarrow> None
      | Some Aborted \<Rightarrow> Some Aborted
      | Some (Returned (a, s1)) \<Rightarrow> run_script K cs (as @ [a], rs, s1))"
| "run_script K (Link # cs) (as, rs, s) =
     (case sc_storage_link_new K 0 s of
        None \<Rightarrow> None
      | Some Aborted \<Rightarrow> Some Aborted
      | Some (Returned (a, s1)) \<Rightarrow> run_script K cs (as @ [a], rs, s1))"
| "run_script K (Arc t i j # cs) (as, rs, s) =
     (if i < length as \<and> j < length as
      then (case sc_storage_arc_new K 0 t (as ! i) (as ! j) s of
              None \<Rightarrow> None
            | Some Aborted \<Rightarrow> Some Aborted
            | Some (Returned (a, s1)) \<Rightarrow> run_script K cs (as @ [a], rs, s1))
      else Some Aborted)"
| "run_script K (Free i # cs) (as, rs, s) =
     (if i < length as
      then (case sc_storage_element_free K 0 (as ! i) s of
              None \<Rightarrow> None
            | Some Aborted \<Rightarrow> Some Aborted
            | Some (Returned (r, s1)) \<Rightarrow> run_script K cs (as, rs @ [r], s1))
      else Some Aborted)"

definition run :: "sc_consts \<Rightarrow> call list \<Rightarrow> (sc_addr list \<times> sc_result list \<times> sc_storage) outcome option"
  where
  "run K cs = run_script K cs ([], [], storage_init)"

text \<open>The storage and the addresses at the end of a run that returns.\<close>

definition run_storage :: "sc_consts \<Rightarrow> call list \<Rightarrow> sc_storage" where
  "run_storage K cs =
     (case run K cs of Some (Returned (as, rs, s)) \<Rightarrow> s | _ \<Rightarrow> storage_init)"

definition run_addr :: "sc_consts \<Rightarrow> call list \<Rightarrow> nat \<Rightarrow> sc_addr" where
  "run_addr K cs i =
     (case run K cs of
        Some (Returned (as, rs, s)) \<Rightarrow> if i < length as then as ! i else SC_ADDR_EMPTY
      | _ \<Rightarrow> SC_ADDR_EMPTY)"

definition run_results :: "sc_consts \<Rightarrow> call list \<Rightarrow> sc_result list" where
  "run_results K cs =
     (case run K cs of Some (Returned (as, rs, s)) \<Rightarrow> rs | _ \<Rightarrow> [])"

text \<open>The addresses passed to the sink with \<^verbatim>\<open>SC_EVENT_REMOVE_ELEMENT\<close>, in order.\<close>

fun remove_element_events :: "sc_notification list \<Rightarrow> sc_addr list" where
  "remove_element_events [] = []"
| "remove_element_events (Event_emit el SC_EVENT_REMOVE_ELEMENT arg # ns) =
     el # remove_element_events ns"
| "remove_element_events (n # ns) = remove_element_events ns"

text \<open>
  Three nodes \<open>n\<close>, \<open>m\<close>, \<open>m2\<close> (positions 0, 1, 2), then the arcs \<open>x\<close> from \<open>m\<close> to
  \<open>n\<close>, \<open>e\<close> from \<open>n\<close> to the arc \<open>x\<close>, and \<open>e'\<close> from \<open>m2\<close> to the arc \<open>x\<close>
  (positions 3, 4, 5).
\<close>

definition script_arcs_into_arc :: "call list" where
  "script_arcs_into_arc = [Node 0, Node 0, Node 0, Arc 8 1 0, Arc 8 0 3, Arc 8 2 3]"

text \<open>
  Two nodes \<open>a\<close>, \<open>c\<close> (positions 0, 1), then the arcs \<open>e\<close> from \<open>a\<close> to \<open>c\<close> and
  \<open>e'\<close> from the arc \<open>e\<close> to \<open>c\<close> (positions 2, 3).
\<close>

definition script_arc_from_arc :: "call list" where
  "script_arc_from_arc = [Node 0, Node 0, Arc 8 0 1, Arc 8 2 1]"

text \<open>
  The chain of the specification: nodes \<open>a\<close>, \<open>b\<close>, \<open>c\<close> (positions 0, 1, 2), the arcs
  \<open>e1\<close> from \<open>a\<close> to \<open>b\<close> and \<open>e2\<close> from \<open>b\<close> to \<open>c\<close> (positions 3, 4).
\<close>

definition script_chain :: "call list" where
  "script_chain = [Node 0, Node 0, Node 0, Arc 8 0 1, Arc 8 1 2]"

text \<open>
  Two nodes \<open>a\<close>, \<open>b\<close> (positions 0, 1) and four arcs from \<open>a\<close> to \<open>b\<close> (positions 2 to
  5, slots 3 to 6); then the arc of slot 4 is freed, a fifth arc from \<open>a\<close> to \<open>b\<close> is
  created (position 6, again slot 4), and the arcs of slots 3 and 6 are freed.
\<close>

definition script_reuse :: "call list" where
  "script_reuse = [Node 0, Node 0, Arc 8 0 1, Arc 8 0 1, Arc 8 0 1, Arc 8 0 1,
                   Free 3, Arc 8 0 1, Free 2, Free 5]"

text \<open>
  A configuration with segments of three slots and at most two segments, in which three
  creations reach the capacity ceiling.
\<close>

definition K_small :: sc_consts where
  "K_small = K_std\<lparr>SC_SEGMENT_ELEMENTS_COUNT := 3, max_loaded_segments := 2\<rparr>"

subsection \<open>Invariants of the specification used as hypotheses\<close>

text \<open>
  I4 of the specification: every published segment lies below \<^verbatim>\<open>segments_num\<close> and
  inside the table of \<^verbatim>\<open>SC_ADDR_SEG_MAX\<close> pointers.
\<close>

definition storage_wf :: "sc_consts \<Rightarrow> sc_storage \<Rightarrow> bool" where
  "storage_wf K s = (\<forall>k. segments s k \<noteq> None \<longrightarrow> k < segments_num s \<and> k < SC_ADDR_SEG_MAX K)"

text \<open>I1 of the specification: a slot of a published segment is non-empty iff its type is not 0.\<close>

definition slot_live :: "sc_storage \<Rightarrow> sc_addr \<Rightarrow> bool" where
  "slot_live s a = (case segments s (seg a) of
       None \<Rightarrow> False
     | Some sg \<Rightarrow> el_type (elements sg (offset a)) \<noteq> 0)"

text \<open>
  I3 of the specification, as a traversal: \<open>out_chain s a xs\<close> holds when following
  \<^verbatim>\<open>next_out\<close> from the address \<open>a\<close> visits exactly the addresses \<open>xs\<close>, in this order,
  and then reaches the empty address; \<open>in_chain\<close> likewise along \<^verbatim>\<open>next_in\<close>.
\<close>

fun out_chain :: "sc_storage \<Rightarrow> sc_addr \<Rightarrow> sc_addr list \<Rightarrow> bool" where
  "out_chain s a [] = SC_ADDR_IS_EMPTY a"
| "out_chain s a (x # xs) =
     (\<not> SC_ADDR_IS_EMPTY a \<and> x = a \<and> out_chain s (arc_next_out_arc (el_get s a)) xs)"

fun in_chain :: "sc_storage \<Rightarrow> sc_addr \<Rightarrow> sc_addr list \<Rightarrow> bool" where
  "in_chain s a [] = SC_ADDR_IS_EMPTY a"
| "in_chain s a (x # xs) =
     (\<not> SC_ADDR_IS_EMPTY a \<and> x = a \<and> in_chain s (arc_next_in_arc (el_get s a)) xs)"

text \<open>
  The traversal itself: the first \<open>n\<close> addresses met when starting at the address \<open>a\<close>
  and following \<^verbatim>\<open>next_out\<close> (resp. \<^verbatim>\<open>next_in\<close>) until the empty address.
\<close>

fun out_walk :: "nat \<Rightarrow> sc_storage \<Rightarrow> sc_addr \<Rightarrow> sc_addr list" where
  "out_walk 0 s a = []"
| "out_walk (Suc n) s a =
     (if SC_ADDR_IS_EMPTY a then [] else a # out_walk n s (arc_next_out_arc (el_get s a)))"

fun in_walk :: "nat \<Rightarrow> sc_storage \<Rightarrow> sc_addr \<Rightarrow> sc_addr list" where
  "in_walk 0 s a = []"
| "in_walk (Suc n) s a =
     (if SC_ADDR_IS_EMPTY a then [] else a # in_walk n s (arc_next_in_arc (el_get s a)))"

text \<open>
  Two storages with the same elements, the same published segments, the same segment
  counter and the same event log: they differ at most in locks and in the cache.
\<close>

definition same_elements :: "sc_storage \<Rightarrow> sc_storage \<Rightarrow> bool" where
  "same_elements s s1 =
     ((\<forall>a. el_get s1 a = el_get s a)
      \<and> (\<forall>k. (segments s1 k = None) = (segments s k = None))
      \<and> segments_num s1 = segments_num s
      \<and> event_log s1 = event_log s)"

text \<open>
  What a returned arc creation has done, for the element \<open>el\<close> it was given, the storage
  \<open>s\<close> at the call, the returned address \<open>new\<close> and the returned storage \<open>s'\<close>: the
  new arc heads both lists, its successors are the old heads, the old heads point back
  at it, it has the type of \<open>el\<close> and its slot is published. When \<open>s\<close> satisfies I4, so
  does \<open>s'\<close>, the slot of \<open>new\<close> was not live in \<open>s\<close>, and no live slot of \<open>s\<close> has changed
  its \<^verbatim>\<open>next_out\<close> or \<^verbatim>\<open>next_in\<close>.
\<close>

definition arc_new_post ::
  "sc_consts \<Rightarrow> sc_element \<Rightarrow> sc_addr \<Rightarrow> sc_addr \<Rightarrow> sc_storage \<Rightarrow> sc_addr \<Rightarrow> sc_storage \<Rightarrow> bool"
  where
  "arc_new_post K el beg end_addr s new s' =
     (first_out_arc (el_get s' beg) = new \<and> first_in_arc (el_get s' end_addr) = new
      \<and> arc_next_out_arc (el_get s' new) = first_out_arc (el_get s beg)
      \<and> arc_next_in_arc (el_get s' new) = first_in_arc (el_get s end_addr)
      \<and> (\<not> SC_ADDR_IS_EMPTY (first_out_arc (el_get s beg)) \<longrightarrow>
           arc_prev_out_arc (el_get s' (first_out_arc (el_get s beg))) = new)
      \<and> (\<not> SC_ADDR_IS_EMPTY (first_in_arc (el_get s end_addr)) \<longrightarrow>
           arc_prev_in_arc (el_get s' (first_in_arc (el_get s end_addr))) = new)
      \<and> el_type (el_get s' new) = el_type el
      \<and> segments s' (seg new) \<noteq> None
      \<and> (storage_wf K s \<longrightarrow>
            storage_wf K s' \<and> \<not> slot_live s new
            \<and> (\<forall>a. slot_live s a \<longrightarrow>
                  arc_next_out_arc (el_get s' a) = arc_next_out_arc (el_get s a)
                  \<and> arc_next_in_arc (el_get s' a) = arc_next_in_arc (el_get s a))))"

text \<open>
  What the visit loop of \<^verbatim>\<open>sc_storage_element_free\<close> keeps of every element: the type
  and the two endpoints; and the set of published segments.
\<close>

definition free_keeps :: "sc_storage \<Rightarrow> sc_storage \<Rightarrow> bool" where
  "free_keeps s s1 =
     ((\<forall>a. el_type (el_get s1 a) = el_type (el_get s a)
          \<and> arc_begin (el_get s1 a) = arc_begin (el_get s a)
          \<and> arc_end (el_get s1 a) = arc_end (el_get s a))
      \<and> (\<forall>k. (segments s1 k = None) = (segments s k = None)))"

text \<open>
  The notifications that the visit of the element at \<open>a\<close> makes, read in a list \<open>evs\<close> of
  calls to the sink: \<^verbatim>\<open>sc_event_notify_element_deleted(a)\<close> and, when \<open>a\<close> is an arc in
  the storage \<open>s\<close>, the two events at its endpoints.
\<close>

definition free_notified :: "sc_consts \<Rightarrow> sc_storage \<Rightarrow> sc_notification list \<Rightarrow> sc_addr \<Rightarrow> bool"
  where
  "free_notified K s evs a =
     (Element_deleted a \<in> set evs
      \<and> (el_type (el_get s a) AND sc_type_arc_mask K \<noteq> 0 \<longrightarrow>
            Event_emit (arc_begin (el_get s a)) SC_EVENT_REMOVE_OUTPUT_ARC a \<in> set evs
            \<and> Event_emit (arc_end (el_get s a)) SC_EVENT_REMOVE_INPUT_ARC a \<in> set evs))"

section \<open>Properties\<close>

subsection \<open>Evaluation of concrete runs\<close>

lemmas eval_defs =
  K_std_def K_small_def storage_init_def run_def run_storage_def run_addr_def run_results_def
  script_arcs_into_arc_def script_arc_from_arc_def script_chain_def
  sc_segment_cache_get_def sc_segment_cache_lock_def sc_segment_cache_unlock_def
  sc_segment_cache_update_def sc_segment_cache_append_def sc_segment_cache_remove_def
  CONCURRENCY_TO_CACHE_IDX_def sc_segment_new_def sc_element_zero_def
  SC_ADDR_EMPTY_def SC_ADDR_IS_EMPTY_def SC_ADDR_IS_NOT_EMPTY_def SC_ADDR_IS_EQUAL_def
  sc_segment_lock_empty_element_def sc_segment_has_empty_slot_def
  first_empty_from.simps sc_segment_cache_append_from.simps
  sc_segment_cache_remove_from.simps sc_segment_cache_find_from.simps
  sc_segment_lock_element_def sc_segment_unlock_element_def sc_segment_erase_element_def
  sc_storage_element_lock_def sc_storage_element_lock_try_def sc_storage_element_unlock_def
  s_max_storage_lock_attempts_def
  sc_storage_get_element_type_def sc_storage_change_element_subtype_def
  sc_storage_append_el_into_segments_def append_el_loop.simps
  sc_storage_node_new_def sc_storage_link_new_def
  sc_storage_arc_new_def arc_new_loop.simps arc_new_attempt_def arc_new_link_def
  arc_new_relink_def arc_new_unlock_def sc_event_emit_def sc_event_notify_element_deleted_def
  el_get_def el_upd_def lock_count_def table_insert_def last_key_def
  sc_storage_element_free_def free_collect.simps free_collect_out.simps
  free_collect_in.simps free_visit_def free_visit_arc_def free_lock_needed_def
  free_lock_neighbour_def free_endpoint_def free_unlink_arc_def free_unlink_out_def
  free_unlink_in_def free_erase_def Let_def

subsection \<open>Basic facts about element access and locks\<close>

lemma el_get_el_upd:
  "el_get (el_upd s a f) b =
     (if b = a \<and> segments s (seg a) \<noteq> None then f (el_get s a) else el_get s b)"
  by (auto simp: el_get_def el_upd_def split: option.splits)

lemma segments_el_upd_None: "(segments (el_upd s a f) k = None) = (segments s k = None)"
  by (auto simp: el_upd_def split: option.splits)

lemma mask_keep: "((t AND m) OR (ty AND NOT m)) AND m = t AND (m :: sc_type)"
  by (auto simp: bit_eq_iff bit_and_iff bit_or_iff bit_not_iff)

lemma mask_new: "ty AND m = 0 \<Longrightarrow> ((t AND m) OR (ty AND NOT m)) AND NOT m = (ty :: sc_type)"
  by (auto simp: bit_eq_iff bit_and_iff bit_or_iff bit_not_iff)

lemma el_get_lock:
  "el_get (snd (snd (sc_storage_element_lock K ctx addr s))) a = el_get s a"
  by (auto simp: sc_storage_element_lock_def el_get_def sc_segment_lock_element_def
      split: option.splits)

lemma el_get_unlock:
  "el_get (snd (sc_storage_element_unlock K ctx addr s)) a = el_get s a"
  by (auto simp: sc_storage_element_unlock_def el_get_def sc_segment_unlock_element_def
      split: option.splits)

subsection \<open>Facts about the cache and the allocation loop\<close>

lemma cache_append_from_frame:
  "segments (sc_segment_cache_append_from K idx sg i s) = segments s
   \<and> segments_num (sc_segment_cache_append_from K idx sg i s) = segments_num s
   \<and> event_log (sc_segment_cache_append_from K idx sg i s) = event_log s
   \<and> segments_cache_lock_ctx (sc_segment_cache_append_from K idx sg i s) = segments_cache_lock_ctx s"
proof (induction K idx sg i s rule: sc_segment_cache_append_from.induct)
  case (1 K idx sg i s)
  then show ?case
    by (subst (1 2 3 4) sc_segment_cache_append_from.simps) auto
qed

lemma cache_remove_from_frame:
  "segments (sc_segment_cache_remove_from K idx sg i s) = segments s
   \<and> segments_num (sc_segment_cache_remove_from K idx sg i s) = segments_num s
   \<and> event_log (sc_segment_cache_remove_from K idx sg i s) = event_log s
   \<and> segments_cache_lock_ctx (sc_segment_cache_remove_from K idx sg i s) = segments_cache_lock_ctx s"
proof (induction K idx sg i s rule: sc_segment_cache_remove_from.induct)
  case (1 K idx sg i s)
  then show ?case
    by (subst (1 2 3 4) sc_segment_cache_remove_from.simps) auto
qed

lemma cache_append_frame:
  "segments (sc_segment_cache_append K ctx sg s) = segments s
   \<and> segments_num (sc_segment_cache_append K ctx sg s) = segments_num s
   \<and> event_log (sc_segment_cache_append K ctx sg s) = event_log s
   \<and> segments_cache_lock_ctx (sc_segment_cache_append K ctx sg s) = segments_cache_lock_ctx s"
  by (simp add: sc_segment_cache_append_def cache_append_from_frame)

lemma cache_remove_frame:
  "segments (sc_segment_cache_remove K ctx sg s) = segments s
   \<and> segments_num (sc_segment_cache_remove K ctx sg s) = segments_num s
   \<and> event_log (sc_segment_cache_remove K ctx sg s) = event_log s
   \<and> segments_cache_lock_ctx (sc_segment_cache_remove K ctx sg s) = segments_cache_lock_ctx s"
  by (simp add: sc_segment_cache_remove_def cache_remove_from_frame)

lemma cache_update_loop_frame:
  "segments (sc_segment_cache_update_loop K ctx is s) = segments s
   \<and> segments_num (sc_segment_cache_update_loop K ctx is s) = segments_num s
   \<and> event_log (sc_segment_cache_update_loop K ctx is s) = event_log s
   \<and> segments_cache_lock_ctx (sc_segment_cache_update_loop K ctx is s) = segments_cache_lock_ctx s"
  by (induction "is" arbitrary: s) (auto simp: Let_def cache_append_frame split: option.splits)

lemma cache_update_frame:
  "segments (sc_segment_cache_update K ctx s) = segments s
   \<and> segments_num (sc_segment_cache_update K ctx s) = segments_num s
   \<and> event_log (sc_segment_cache_update K ctx s) = event_log s
   \<and> segments_cache_lock_ctx (sc_segment_cache_update K ctx s) = segments_cache_lock_ctx s"
  by (simp add: sc_segment_cache_update_def cache_update_loop_frame)

lemma first_empty_from_Some:
  "first_empty_from K num sg i = Some off \<Longrightarrow>
   off < SC_SEGMENT_ELEMENTS_COUNT K \<and> el_type (elements sg off) = 0
   \<and> \<not> SC_ADDR_IS_EMPTY \<lparr>seg = num, offset = off\<rparr>"
proof (induction K num sg i rule: first_empty_from.induct)
  case (1 K num sg i)
  from "1.prems" show ?case
    by (subst (asm) first_empty_from.simps) (auto split: if_splits dest: "1.IH")
qed

lemma cache_get_hit:
  assumes "segments_cache_lock_ctx s = None" and "0 < segments_cache_count s"
    and "sc_segment_cache_find_from K (CONCURRENCY_TO_CACHE_IDX K ctx) 0
           (s\<lparr>segments_cache_lock_ctx := Some ctx\<rparr>) = Some sg"
  shows "sc_segment_cache_get K ctx s
         = Some (Returned (Some sg, s\<lparr>segments_cache_lock_ctx := None\<rparr>))"
  using assms
  by (simp add: sc_segment_cache_get_def sc_segment_cache_lock_def sc_segment_cache_unlock_def)

lemma cache_get_miss:
  assumes "segments_cache_lock_ctx s = None"
    and "\<not> 0 < segments_cache_count s
         \<or> sc_segment_cache_find_from K (CONCURRENCY_TO_CACHE_IDX K ctx) 0
              (s\<lparr>segments_cache_lock_ctx := Some ctx\<rparr>) = None"
  shows "sc_segment_cache_get K ctx s
         = (if SC_ADDR_SEG_MAX K \<le> segments_num s then Some Aborted
            else Some (Returned (Some (segments_num s),
                   (sc_segment_cache_append K ctx (segments_num s)
                      ((sc_segment_cache_update K ctx (s\<lparr>segments_cache_lock_ctx := Some ctx\<rparr>))
                         \<lparr>segments_num := segments_num s + 1,
                          segments := (segments s)
                            (segments_num s \<mapsto> sc_segment_new K (segments_num s))\<rparr>))
                   \<lparr>segments_cache_lock_ctx := None\<rparr>)))"
  using assms
  by (auto simp: sc_segment_cache_get_def sc_segment_cache_lock_def sc_segment_cache_unlock_def
        Let_def cache_append_frame cache_update_frame)

lemma cache_get_result:
  assumes "sc_segment_cache_get K ctx s = Some (Returned (r, s1))"
  shows "r \<noteq> None \<and> event_log s1 = event_log s
         \<and> ((segments s1 = segments s \<and> segments_num s1 = segments_num s)
            \<or> (r = Some (segments_num s) \<and> segments_num s < SC_ADDR_SEG_MAX K
                \<and> segments s1 = (segments s)(segments_num s \<mapsto> sc_segment_new K (segments_num s))
                \<and> segments_num s1 = segments_num s + 1))"
proof (cases "segments_cache_lock_ctx s")
  case (Some c)
  with assms show ?thesis
    by (simp add: sc_segment_cache_get_def sc_segment_cache_lock_def)
next
  case None
  note unlocked = this
  show ?thesis
  proof (cases "0 < segments_cache_count s
       \<and> sc_segment_cache_find_from K (CONCURRENCY_TO_CACHE_IDX K ctx) 0
              (s\<lparr>segments_cache_lock_ctx := Some ctx\<rparr>) \<noteq> None")
    case True
    then obtain sg where "0 < segments_cache_count s"
      and "sc_segment_cache_find_from K (CONCURRENCY_TO_CACHE_IDX K ctx) 0
              (s\<lparr>segments_cache_lock_ctx := Some ctx\<rparr>) = Some sg" by auto
    from cache_get_hit [OF unlocked this] assms show ?thesis by auto
  next
    case False
    then have "\<not> 0 < segments_cache_count s
         \<or> sc_segment_cache_find_from K (CONCURRENCY_TO_CACHE_IDX K ctx) 0
              (s\<lparr>segments_cache_lock_ctx := Some ctx\<rparr>) = None" by auto
    from cache_get_miss [OF unlocked this] assms show ?thesis
      by (auto simp: cache_append_frame cache_update_frame split: if_splits)
  qed
qed


lemmas append_el_loop_induct =
  append_el_loop.raw_induct [rotated 1, consumes 1, case_names step]

lemma append_el_loop_basic':
  "append_el_loop K ctx el s = Some y \<Longrightarrow>
     (\<forall>p addr s'. y = Returned (p, addr, s') \<longrightarrow>
        event_log s' = event_log s
        \<and> (p = None \<longrightarrow> addr = SC_ADDR_EMPTY)
        \<and> (p \<noteq> None \<longrightarrow>
              p = Some addr \<and> \<not> SC_ADDR_IS_EMPTY addr
              \<and> segments s' (seg addr) \<noteq> None \<and> el_get s' addr = el))"
proof (induction rule: append_el_loop_induct)
  case (step loop K ctx el s y)
  note IH = step(1) and body = step(2)
  show ?case
  proof (cases "sc_segment_cache_get K ctx s")
    case None
    with body show ?thesis by simp
  next
    case (Some g)
    note get = this
    show ?thesis
    proof (cases g)
      case Aborted
      with get body show ?thesis by simp
    next
      case (Returned rs)
      obtain r s1 where rs: "rs = (r, s1)" by (cases rs)
      from cache_get_result [OF get [unfolded Returned rs]]
      obtain k where k: "r = Some k" and ev: "event_log s1 = event_log s" by auto
      note get' = get [unfolded Returned rs k]
      show ?thesis
      proof (cases "segments s1 k")
        case None
        with get' body show ?thesis by simp
      next
        case (Some sg)
        note sg = this
        show ?thesis
        proof (cases "first_empty_from K k sg 0")
          case None
          with get' sg body
          have "loop K ctx el (sc_segment_cache_remove K ctx k s1) = Some y"
            by (simp add: sc_segment_lock_empty_element_def)
          note rec = this
          show ?thesis
          proof (intro allI impI)
            fix p addr s' assume yR: "y = Returned (p, addr, s')"
            from IH [OF rec, rule_format, OF yR] ev
            show "event_log s' = event_log s
              \<and> (p = None \<longrightarrow> addr = SC_ADDR_EMPTY)
              \<and> (p \<noteq> None \<longrightarrow>
                    p = Some addr \<and> \<not> SC_ADDR_IS_EMPTY addr
                    \<and> segments s' (seg addr) \<noteq> None \<and> el_get s' addr = el)"
              by (simp add: cache_remove_frame)
          qed
        next
          case (Some off)
          from first_empty_from_Some [OF this]
          have ne: "\<not> SC_ADDR_IS_EMPTY \<lparr>seg = k, offset = off\<rparr>" by simp
          from get' sg Some body
          have y: "y = Returned (Some \<lparr>seg = k, offset = off\<rparr>, \<lparr>seg = k, offset = off\<rparr>,
                      s1\<lparr>segments := (segments s1)
                           (k \<mapsto> (sc_segment_lock_element sg off)
                                \<lparr>elements := (elements (sc_segment_lock_element sg off))(off := el)\<rparr>)\<rparr>)"
            by (simp add: sc_segment_lock_empty_element_def)
          show ?thesis
            using ne ev by (simp add: y el_get_def)
        qed
      qed
    qed
  qed
qed


lemma cache_get_wf:
  assumes "sc_segment_cache_get K ctx s = Some (Returned (r, s1))" and "storage_wf K s"
  shows "storage_wf K s1 \<and> (\<forall>k. segments s k \<noteq> None \<longrightarrow> segments s1 k = segments s k)"
proof -
  from cache_get_result [OF assms(1)]
  consider (same) "segments s1 = segments s" "segments_num s1 = segments_num s"
    | (new) "segments_num s < SC_ADDR_SEG_MAX K"
        "segments s1 = (segments s)(segments_num s \<mapsto> sc_segment_new K (segments_num s))"
        "segments_num s1 = segments_num s + 1"
    by blast
  then show ?thesis
  proof cases
    case same
    with assms(2) show ?thesis by (simp add: storage_wf_def)
  next
    case new
    have below: "k < segments_num s \<and> k < SC_ADDR_SEG_MAX K" if "segments s k \<noteq> None" for k
      using assms(2) that unfolding storage_wf_def by blast
    show ?thesis
    proof (intro conjI allI impI)
      show "storage_wf K s1"
        unfolding storage_wf_def
      proof (intro allI impI)
        fix k assume "segments s1 k \<noteq> None"
        then have "k = segments_num s \<or> segments s k \<noteq> None"
          by (simp add: new(2) split: if_splits)
        with below [of k] new(1) show "k < segments_num s1 \<and> k < SC_ADDR_SEG_MAX K"
          by (auto simp: new(3))
      qed
    next
      fix k assume "segments s k \<noteq> None"
      from below [OF this] show "segments s1 k = segments s k"
        by (simp add: new(2))
    qed
  qed
qed

lemma el_get_cache_remove: "el_get (sc_segment_cache_remove K ctx k s) a = el_get s a"
  by (simp add: el_get_def cache_remove_frame)

lemma append_el_loop_frame':
  "append_el_loop K ctx el s = Some y \<Longrightarrow>
     storage_wf K s \<longrightarrow>
     (\<forall>p addr s'. y = Returned (p, addr, s') \<longrightarrow>
        storage_wf K s'
        \<and> (\<forall>k. segments s k \<noteq> None \<longrightarrow> segments s' k \<noteq> None)
        \<and> (\<forall>a. segments s (seg a) \<noteq> None \<longrightarrow>
              (if p = Some a then el_type (el_get s a) = 0 else el_get s' a = el_get s a)))"
proof (induction rule: append_el_loop_induct)
  case (step loop K ctx el s y)
  note IH = step(1) and body = step(2)
  show ?case
  proof (cases "sc_segment_cache_get K ctx s")
    case None
    with body show ?thesis by simp
  next
    case (Some g)
    note get = this
    show ?thesis
    proof (cases g)
      case Aborted
      with get body show ?thesis by simp
    next
      case (Returned rs)
      obtain r s1 where rs: "rs = (r, s1)" by (cases rs)
      from cache_get_result [OF get [unfolded Returned rs]]
      obtain k where k: "r = Some k" by auto
      note get' = get [unfolded Returned rs k]
      show ?thesis
      proof (intro impI allI)
        fix p addr s'
        assume wf: "storage_wf K s" and yR: "y = Returned (p, addr, s')"
        from cache_get_wf [OF get' wf]
        have wf1: "storage_wf K s1"
          and ext: "\<And>j. segments s j \<noteq> None \<Longrightarrow> segments s1 j = segments s j" by auto
        show "storage_wf K s'
          \<and> (\<forall>k. segments s k \<noteq> None \<longrightarrow> segments s' k \<noteq> None)
          \<and> (\<forall>a. segments s (seg a) \<noteq> None \<longrightarrow>
                (if p = Some a then el_type (el_get s a) = 0 else el_get s' a = el_get s a))"
        proof (cases "segments s1 k")
          case None
          with get' body yR show ?thesis by simp
        next
          case (Some sg)
          note sg = this
          show ?thesis
          proof (cases "first_empty_from K k sg 0")
            case None
            with get' sg body
            have rec: "loop K ctx el (sc_segment_cache_remove K ctx k s1) = Some y"
              by (simp add: sc_segment_lock_empty_element_def)
            from wf1 have "storage_wf K (sc_segment_cache_remove K ctx k s1)"
              by (simp add: storage_wf_def cache_remove_frame)
            note ih = IH [OF rec, rule_format, OF this yR]
            from ih have a: "storage_wf K s'" by blast
            from ih have b: "segments s' j \<noteq> None" if "segments s1 j \<noteq> None" for j
              using that by (simp add: cache_remove_frame)
            have c: "if p = Some a then el_type (el_get s1 a) = 0 else el_get s' a = el_get s1 a"
              if "segments s1 (seg a) \<noteq> None" for a
            proof -
              from ih that
              have "if p = Some a
                    then el_type (el_get (sc_segment_cache_remove K ctx k s1) a) = 0
                    else el_get s' a = el_get (sc_segment_cache_remove K ctx k s1) a"
                by (simp add: cache_remove_frame)
              then show ?thesis
                by (simp add: el_get_cache_remove split: if_splits)
            qed
            have d: "el_get s1 a = el_get s a" if "segments s (seg a) \<noteq> None" for a
              using ext [OF that] by (simp add: el_get_def)
            show ?thesis
            proof (intro conjI allI impI)
              show "storage_wf K s'" by (rule a)
            next
              fix j assume "segments s j \<noteq> None"
              with ext [OF this] b [of j] show "segments s' j \<noteq> None" by simp
            next
              fix a :: sc_addr assume pa: "segments s (seg a) \<noteq> None"
              with ext [OF this] have "segments s1 (seg a) \<noteq> None" by simp
              from c [OF this] d [OF pa]
              show "if p = Some a then el_type (el_get s a) = 0 else el_get s' a = el_get s a"
                by (simp split: if_splits)
            qed
          next
            case (Some off)
            from first_empty_from_Some [OF this]
            have free: "el_type (elements sg off) = 0" by simp
            from get' sg Some body
            have "y = Returned (Some \<lparr>seg = k, offset = off\<rparr>, \<lparr>seg = k, offset = off\<rparr>,
                      s1\<lparr>segments := (segments s1)
                           (k \<mapsto> (sc_segment_lock_element sg off)
                                \<lparr>elements := (elements (sc_segment_lock_element sg off))(off := el)\<rparr>)\<rparr>)"
              by (simp add: sc_segment_lock_empty_element_def)
            with yR have p: "p = Some \<lparr>seg = k, offset = off\<rparr>"
              and s': "s' = s1\<lparr>segments := (segments s1)
                           (k \<mapsto> (sc_segment_lock_element sg off)
                                \<lparr>elements := (elements (sc_segment_lock_element sg off))(off := el)\<rparr>)\<rparr>"
              by auto
            show ?thesis
            proof (intro conjI allI impI)
              from wf1 sg show "storage_wf K s'"
                by (auto simp: storage_wf_def s')
            next
              fix j assume "segments s j \<noteq> None"
              from ext [OF this] this show "segments s' j \<noteq> None" by (simp add: s')
            next
              fix a :: sc_addr assume pa: "segments s (seg a) \<noteq> None"
              show "if p = Some a then el_type (el_get s a) = 0 else el_get s' a = el_get s a"
              proof (cases "seg a = k")
                case True
                with ext [OF pa] sg have sk: "segments s k = Some sg" by metis
                with free True show ?thesis
                  by (cases a) (auto simp: p s' el_get_def sc_segment_lock_element_def)
              next
                case False
                with ext [OF pa] show ?thesis
                  by (cases a) (auto simp: p s' el_get_def)
              qed
            qed
          qed
        qed
      qed
    qed
  qed
qed

subsection \<open>Facts about locks, chains and the result of an allocation\<close>

lemma same_elements_refl [simp]: "same_elements s s"
  by (simp add: same_elements_def)

lemma same_elements_trans: "same_elements s s1 \<Longrightarrow> same_elements s1 s2 \<Longrightarrow> same_elements s s2"
  by (simp add: same_elements_def)

lemma IS_EMPTY_iff: "SC_ADDR_IS_EMPTY a = (a = SC_ADDR_EMPTY)"
  by (cases a) (auto simp: SC_ADDR_IS_EMPTY_def SC_ADDR_EMPTY_def)

lemma IS_EQUAL_iff: "SC_ADDR_IS_EQUAL a b = (a = b)"
  by (cases a, cases b) (auto simp: SC_ADDR_IS_EQUAL_def)

lemma lock_cases:
  assumes "sc_storage_element_lock K ctx a s = (r, p, s1)"
  shows "(p = None \<and> r = SC_RESULT_ERROR \<and> s1 = s)
       \<or> (p = Some a \<and> r = SC_RESULT_OK \<and> seg a < SC_ADDR_SEG_MAX K
           \<and> segments s (seg a) \<noteq> None \<and> same_elements s s1)"
  using assms
  by (auto simp: sc_storage_element_lock_def same_elements_def el_get_def
        sc_segment_lock_element_def split: if_splits option.splits)

lemma lock_try_cases:
  assumes "sc_storage_element_lock_try K ctx a n s = (r, p, s1)"
  shows "(p = None \<and> r = SC_RESULT_ERROR \<and> s1 = s)
       \<or> (p = Some a \<and> r = SC_RESULT_OK \<and> seg a < SC_ADDR_SEG_MAX K
           \<and> segments s (seg a) \<noteq> None \<and> same_elements s s1)"
  using assms
  by (auto simp: sc_storage_element_lock_try_def same_elements_def el_get_def
        sc_segment_lock_element_def split: if_splits option.splits)

lemma unlock_same: "same_elements s (snd (sc_storage_element_unlock K ctx a s))"
  by (auto simp: sc_storage_element_unlock_def same_elements_def el_get_def
        sc_segment_unlock_element_def split: if_splits option.splits)

lemma unlock_ok:
  "fst (sc_storage_element_unlock K ctx a s) = SC_RESULT_OK
     \<longleftrightarrow> seg a < SC_ADDR_SEG_MAX K \<and> segments s (seg a) \<noteq> None"
  by (auto simp: sc_storage_element_unlock_def split: option.splits)

lemma unlock_same_trans:
  "same_elements s s1 \<Longrightarrow> same_elements s (snd (sc_storage_element_unlock K ctx a s1))"
  by (rule same_elements_trans [OF _ unlock_same])

lemma arc_new_unlock_same:
  "same_elements s s1 \<Longrightarrow>
   same_elements s (arc_new_unlock K ctx beg end_addr fo fi beg_el end_el f_out f_in tmp_el addr s1)"
  unfolding arc_new_unlock_def Let_def
  by (auto split: option.splits intro!: unlock_same_trans)

lemma slot_live_iff: "slot_live s a = (segments s (seg a) \<noteq> None \<and> el_type (el_get s a) \<noteq> 0)"
  by (auto simp: slot_live_def el_get_def split: option.splits)

lemma same_elements_wf: "same_elements s s1 \<Longrightarrow> storage_wf K s1 = storage_wf K s"
  by (simp add: same_elements_def storage_wf_def)

lemma same_elements_live: "same_elements s s1 \<Longrightarrow> slot_live s1 a = slot_live s a"
  by (simp add: same_elements_def slot_live_iff)

lemma out_chain_cong:
  "(\<And>x. x \<in> set xs \<Longrightarrow> arc_next_out_arc (el_get s1 x) = arc_next_out_arc (el_get s x))
   \<Longrightarrow> out_chain s1 a xs = out_chain s a xs"
  by (induction xs arbitrary: a) auto

lemma in_chain_cong:
  "(\<And>x. x \<in> set xs \<Longrightarrow> arc_next_in_arc (el_get s1 x) = arc_next_in_arc (el_get s x))
   \<Longrightarrow> in_chain s1 a xs = in_chain s a xs"
  by (induction xs arbitrary: a) auto

lemma out_chain_unique: "out_chain s a xs \<Longrightarrow> out_chain s a ys \<Longrightarrow> xs = ys"
proof (induction xs arbitrary: a ys)
  case Nil
  then show ?case by (cases ys) auto
next
  case (Cons x xs)
  then show ?case by (cases ys) auto
qed

lemma in_chain_unique: "in_chain s a xs \<Longrightarrow> in_chain s a ys \<Longrightarrow> xs = ys"
proof (induction xs arbitrary: a ys)
  case Nil
  then show ?case by (cases ys) auto
next
  case (Cons x xs)
  then show ?case by (cases ys) auto
qed

lemma append_el_result:
  assumes "sc_storage_append_el_into_segments K ctx el s = Some (Returned (p, addr, s'))"
  shows "event_log s' = event_log s
       \<and> (p = None \<longrightarrow> addr = SC_ADDR_EMPTY)
       \<and> (p \<noteq> None \<longrightarrow>
             p = Some addr \<and> \<not> SC_ADDR_IS_EMPTY addr
             \<and> segments s' (seg addr) \<noteq> None \<and> el_get s' addr = el)"
proof (cases "segments_num s \<ge> max_loaded_segments K")
  case True
  with assms show ?thesis
    by (auto simp: sc_storage_append_el_into_segments_def)
next
  case False
  with assms have loop: "append_el_loop K ctx el s = Some (Returned (p, addr, s'))"
    by (simp add: sc_storage_append_el_into_segments_def)
  show ?thesis
    by (rule append_el_loop_basic' [OF loop, rule_format, OF refl])
qed

lemma append_el_frame:
  assumes "sc_storage_append_el_into_segments K ctx el s = Some (Returned (p, addr, s'))"
    and "storage_wf K s"
  shows "storage_wf K s'
       \<and> (\<forall>k. segments s k \<noteq> None \<longrightarrow> segments s' k \<noteq> None)
       \<and> (\<forall>a. segments s (seg a) \<noteq> None \<longrightarrow>
             (if p = Some a then el_type (el_get s a) = 0 else el_get s' a = el_get s a))"
proof (cases "segments_num s \<ge> max_loaded_segments K")
  case True
  with assms show ?thesis
    by (auto simp: sc_storage_append_el_into_segments_def)
next
  case False
  with assms have loop: "append_el_loop K ctx el s = Some (Returned (p, addr, s'))"
    by (simp add: sc_storage_append_el_into_segments_def)
  show ?thesis
    by (rule append_el_loop_frame' [OF loop, rule_format, OF assms(2) refl])
qed

subsection \<open>Facts about the list surgery of arc creation\<close>

lemma el_get_emit [simp]: "el_get (sc_event_emit e t a s) x = el_get s x"
  by (simp add: sc_event_emit_def el_get_def)

lemma segments_emit [simp]: "segments (sc_event_emit e t a s) = segments s"
  by (simp add: sc_event_emit_def)

lemma segments_num_emit [simp]: "segments_num (sc_event_emit e t a s) = segments_num s"
  by (simp add: sc_event_emit_def)

lemma segments_num_el_upd [simp]: "segments_num (el_upd s a f) = segments_num s"
  by (simp add: el_upd_def split: option.splits)

lemma event_log_el_upd [simp]: "event_log (el_upd s a f) = event_log s"
  by (simp add: el_upd_def split: option.splits)

lemma el_upd_field_kept:
  assumes "\<And>e. F (f e) = F e"
  shows "F (el_get (el_upd s a f) b) = F (el_get s b)"
  using assms by (simp add: el_get_el_upd)

lemmas el_upd_kept =
  el_upd_field_kept [where F = el_type]
  el_upd_field_kept [where F = first_out_arc]
  el_upd_field_kept [where F = first_in_arc]
  el_upd_field_kept [where F = arc_begin]
  el_upd_field_kept [where F = arc_end]
  el_upd_field_kept [where F = arc_next_out_arc]
  el_upd_field_kept [where F = arc_prev_out_arc]
  el_upd_field_kept [where F = arc_next_in_arc]
  el_upd_field_kept [where F = arc_prev_in_arc]
  el_upd_field_kept [where F = content_data]

lemma el_upd_first_out_arc:
  "first_out_arc (el_get (el_upd s a (\<lambda>e. e\<lparr>first_out_arc := v\<rparr>)) b)
     = (if b = a \<and> segments s (seg a) \<noteq> None then v else first_out_arc (el_get s b))"
  by (auto simp: el_get_el_upd)

lemma el_upd_first_in_arc:
  "first_in_arc (el_get (el_upd s a (\<lambda>e. e\<lparr>first_in_arc := v\<rparr>)) b)
     = (if b = a \<and> segments s (seg a) \<noteq> None then v else first_in_arc (el_get s b))"
  by (auto simp: el_get_el_upd)

lemma el_upd_arc_next_out_arc:
  "arc_next_out_arc (el_get (el_upd s a (\<lambda>e. e\<lparr>arc_next_out_arc := v\<rparr>)) b)
     = (if b = a \<and> segments s (seg a) \<noteq> None then v else arc_next_out_arc (el_get s b))"
  by (auto simp: el_get_el_upd)

lemma el_upd_arc_prev_out_arc:
  "arc_prev_out_arc (el_get (el_upd s a (\<lambda>e. e\<lparr>arc_prev_out_arc := v\<rparr>)) b)
     = (if b = a \<and> segments s (seg a) \<noteq> None then v else arc_prev_out_arc (el_get s b))"
  by (auto simp: el_get_el_upd)

lemma el_upd_arc_next_in_arc:
  "arc_next_in_arc (el_get (el_upd s a (\<lambda>e. e\<lparr>arc_next_in_arc := v\<rparr>)) b)
     = (if b = a \<and> segments s (seg a) \<noteq> None then v else arc_next_in_arc (el_get s b))"
  by (auto simp: el_get_el_upd)

lemma el_upd_arc_prev_in_arc:
  "arc_prev_in_arc (el_get (el_upd s a (\<lambda>e. e\<lparr>arc_prev_in_arc := v\<rparr>)) b)
     = (if b = a \<and> segments s (seg a) \<noteq> None then v else arc_prev_in_arc (el_get s b))"
  by (auto simp: el_get_el_upd)

lemma el_upd_el_type:
  "el_type (el_get (el_upd s a (\<lambda>e. e\<lparr>el_type := v\<rparr>)) b)
     = (if b = a \<and> segments s (seg a) \<noteq> None then v else el_type (el_get s b))"
  by (auto simp: el_get_el_upd)

lemmas el_upd_set =
  el_upd_first_out_arc
  el_upd_first_in_arc
  el_upd_arc_next_out_arc
  el_upd_arc_prev_out_arc
  el_upd_arc_next_in_arc
  el_upd_arc_prev_in_arc
  el_upd_el_type

lemma segments_relink_None:
  "(segments (arc_new_relink bp ep tp fo fi f_out f_in addr s) k = None) = (segments s k = None)"
  unfolding arc_new_relink_def Let_def
  by (simp add: segments_el_upd_None split: option.splits)

lemma segments_num_relink [simp]:
  "segments_num (arc_new_relink bp ep tp fo fi f_out f_in addr s) = segments_num s"
  unfolding arc_new_relink_def Let_def
  by (simp split: option.splits)

lemma relink_heads:
  assumes "segments s (seg bp) \<noteq> None" and "segments s (seg ep) \<noteq> None"
  shows "first_out_arc (el_get (arc_new_relink bp ep tp fo fi f_out f_in addr s) bp) = addr"
    and "first_in_arc (el_get (arc_new_relink bp ep tp fo fi f_out f_in addr s) ep) = addr"
  using assms unfolding arc_new_relink_def Let_def
  by (auto simp: el_upd_kept el_upd_set segments_el_upd_None split: option.splits)

lemma relink_next:
  assumes "segments s (seg tp) \<noteq> None"
  shows "arc_next_out_arc (el_get (arc_new_relink bp ep tp fo fi f_out f_in addr s) tp) = fo"
    and "arc_next_in_arc (el_get (arc_new_relink bp ep tp fo fi f_out f_in addr s) tp) = fi"
  using assms unfolding arc_new_relink_def Let_def
  by (auto simp: el_upd_kept el_upd_set segments_el_upd_None split: option.splits)

lemma relink_prev_out:
  assumes "segments s (seg fo) \<noteq> None"
  shows "arc_prev_out_arc (el_get (arc_new_relink bp ep tp fo fi (Some fo) f_in addr s) fo) = addr"
  using assms unfolding arc_new_relink_def Let_def
  by (auto simp: el_upd_kept el_upd_set segments_el_upd_None split: option.splits)

lemma relink_prev_in:
  assumes "segments s (seg fi) \<noteq> None"
  shows "arc_prev_in_arc (el_get (arc_new_relink bp ep tp fo fi f_out (Some fi) addr s) fi) = addr"
  using assms unfolding arc_new_relink_def Let_def
  by (auto simp: el_upd_kept el_upd_set segments_el_upd_None split: option.splits)

lemma relink_type:
  "el_type (el_get (arc_new_relink bp ep tp fo fi f_out f_in addr s) a) = el_type (el_get s a)"
  unfolding arc_new_relink_def Let_def
  by (auto simp: el_upd_kept el_upd_set segments_el_upd_None split: option.splits)

lemma relink_other_next:
  assumes "a \<noteq> tp"
  shows "arc_next_out_arc (el_get (arc_new_relink bp ep tp fo fi f_out f_in addr s) a)
           = arc_next_out_arc (el_get s a)"
    and "arc_next_in_arc (el_get (arc_new_relink bp ep tp fo fi f_out f_in addr s) a)
           = arc_next_in_arc (el_get s a)"
  using assms unfolding arc_new_relink_def Let_def
  by (auto simp: el_upd_kept el_upd_set segments_el_upd_None split: option.splits)


lemma arc_new_post_same:
  assumes "same_elements s s1" and "arc_new_post K el beg end_addr s1 new s'"
  shows "arc_new_post K el beg end_addr s new s'"
proof -
  from assms(1) have g: "\<And>a. el_get s1 a = el_get s a" by (simp add: same_elements_def)
  from assms(2) show ?thesis
    unfolding arc_new_post_def g same_elements_wf [OF assms(1)] same_elements_live [OF assms(1)]
    by simp
qed

lemma arc_new_link_result:
  assumes "arc_new_link K ctx el beg end_addr r bp ep fo fi f_out f_in s4
             = Some (Returned (r', new, s'))"
  shows "\<exists>s5. sc_storage_append_el_into_segments K ctx el s4 = Some (Returned (Some new, new, s5))
           \<and> r' = r \<and> new \<noteq> fo \<and> new \<noteq> fi
           \<and> s' = arc_new_unlock K ctx beg end_addr fo fi (Some bp) (Some ep) f_out f_in
                     (Some new) new
                     (arc_new_relink bp ep new fo fi f_out f_in new
                        (sc_event_emit end_addr SC_EVENT_ADD_INPUT_ARC new
                           (sc_event_emit beg SC_EVENT_ADD_OUTPUT_ARC new s5)))"
proof (cases "sc_storage_append_el_into_segments K ctx el s4")
  case None
  with assms show ?thesis by (simp add: arc_new_link_def)
next
  case (Some g)
  show ?thesis
  proof (cases g)
    case Aborted
    with Some assms show ?thesis by (simp add: arc_new_link_def)
  next
    case (Returned t)
    obtain p addr s5 where t: "t = (p, addr, s5)" by (cases t)
    note app = Some [unfolded Returned t]
    show ?thesis
    proof (cases p)
      case None
      with app assms show ?thesis by (simp add: arc_new_link_def)
    next
      case (Some tp)
      with append_el_result [OF app] have tp: "tp = addr" by simp
      from assms app Some tp show ?thesis
        by (auto simp: arc_new_link_def Let_def IS_EQUAL_iff split: if_splits)
    qed
  qed
qed


lemma append_el_loop_published:
  "append_el_loop K ctx el s = Some y \<Longrightarrow>
     (\<forall>p addr s'. y = Returned (p, addr, s') \<longrightarrow>
        (\<forall>j. segments s j \<noteq> None \<longrightarrow> segments s' j \<noteq> None))"
proof (induction rule: append_el_loop_induct)
  case (step loop K ctx el s y)
  note IH = step(1) and body = step(2)
  show ?case
  proof (cases "sc_segment_cache_get K ctx s")
    case None
    with body show ?thesis by simp
  next
    case (Some g)
    note get = this
    show ?thesis
    proof (cases g)
      case Aborted
      with get body show ?thesis by simp
    next
      case (Returned rs)
      obtain r s1 where rs: "rs = (r, s1)" by (cases rs)
      from cache_get_result [OF get [unfolded Returned rs]]
      obtain k where k: "r = Some k"
        and ext: "\<And>j. segments s j \<noteq> None \<Longrightarrow> segments s1 j \<noteq> None" by auto
      note get' = get [unfolded Returned rs k]
      show ?thesis
      proof (cases "segments s1 k")
        case None
        with get' body show ?thesis by simp
      next
        case (Some sg)
        note sg = this
        show ?thesis
        proof (cases "first_empty_from K k sg 0")
          case None
          with get' sg body
          have rec: "loop K ctx el (sc_segment_cache_remove K ctx k s1) = Some y"
            by (simp add: sc_segment_lock_empty_element_def)
          show ?thesis
          proof (intro allI impI)
            fix p addr s' j
            assume yR: "y = Returned (p, addr, s')" and "segments s j \<noteq> None"
            from ext [OF this(2)] IH [OF rec, rule_format, OF yR, of j]
            show "segments s' j \<noteq> None" by (simp add: cache_remove_frame)
          qed
        next
          case (Some off)
          from get' sg Some body
          have "y = Returned (Some \<lparr>seg = k, offset = off\<rparr>, \<lparr>seg = k, offset = off\<rparr>,
                      s1\<lparr>segments := (segments s1)
                           (k \<mapsto> (sc_segment_lock_element sg off)
                                \<lparr>elements := (elements (sc_segment_lock_element sg off))(off := el)\<rparr>)\<rparr>)"
            by (simp add: sc_segment_lock_empty_element_def)
          with ext show ?thesis by auto
        qed
      qed
    qed
  qed
qed

lemma append_el_published:
  assumes "sc_storage_append_el_into_segments K ctx el s = Some (Returned (p, addr, s'))"
    and "segments s j \<noteq> None"
  shows "segments s' j \<noteq> None"
proof (cases "segments_num s \<ge> max_loaded_segments K")
  case True
  with assms show ?thesis
    by (auto simp: sc_storage_append_el_into_segments_def)
next
  case False
  with assms have loop: "append_el_loop K ctx el s = Some (Returned (p, addr, s'))"
    by (simp add: sc_storage_append_el_into_segments_def)
  show ?thesis
    by (rule append_el_loop_published [OF loop, rule_format, OF refl assms(2)])
qed

lemma arc_new_link_post:
  assumes link: "arc_new_link K ctx el beg end_addr r beg end_addr fo fi f_out f_in s4
             = Some (Returned (r', new, s'))"
    and same: "same_elements s s4"
    and pb: "segments s (seg beg) \<noteq> None" and pe: "segments s (seg end_addr) \<noteq> None"
    and fo: "fo = first_out_arc (el_get s beg)"
    and fi: "fi = first_in_arc (el_get s end_addr)"
    and f_out: "if SC_ADDR_IS_EMPTY fo then f_out = None
                else f_out = Some fo \<and> segments s (seg fo) \<noteq> None"
    and f_in: "if SC_ADDR_IS_EMPTY fi then f_in = None
               else f_in = Some fi \<and> segments s (seg fi) \<noteq> None"
  shows "r' = r \<and> \<not> SC_ADDR_IS_EMPTY new \<and> arc_new_post K el beg end_addr s new s'"
proof -
  from arc_new_link_result [OF link] obtain s5 where
    app: "sc_storage_append_el_into_segments K ctx el s4 = Some (Returned (Some new, new, s5))"
    and r: "r' = r" and nfo: "new \<noteq> fo" and nfi: "new \<noteq> fi"
    and s': "s' = arc_new_unlock K ctx beg end_addr fo fi (Some beg) (Some end_addr) f_out f_in
                     (Some new) new
                     (arc_new_relink beg end_addr new fo fi f_out f_in new
                        (sc_event_emit end_addr SC_EVENT_ADD_INPUT_ARC new
                           (sc_event_emit beg SC_EVENT_ADD_OUTPUT_ARC new s5)))"
    by blast
  define s6 where "s6 = sc_event_emit end_addr SC_EVENT_ADD_INPUT_ARC new
                           (sc_event_emit beg SC_EVENT_ADD_OUTPUT_ARC new s5)"
  define s12 where "s12 = arc_new_relink beg end_addr new fo fi f_out f_in new s6"
  have s'12: "s' = arc_new_unlock K ctx beg end_addr fo fi (Some beg) (Some end_addr) f_out f_in
                     (Some new) new s12"
    by (simp add: s' s12_def s6_def)
  from arc_new_unlock_same [OF same_elements_refl, of s12] s'12
  have u: "same_elements s12 s'" by simp
  then have get': "\<And>a. el_get s' a = el_get s12 a"
    and pub': "\<And>k. (segments s' k = None) = (segments s12 k = None)"
    by (simp_all add: same_elements_def)
  from same have get4: "\<And>a. el_get s4 a = el_get s a"
    and pub4: "\<And>k. (segments s4 k = None) = (segments s k = None)"
    by (simp_all add: same_elements_def)
  from append_el_result [OF app]
  have ne: "\<not> SC_ADDR_IS_EMPTY new" and pn5: "segments s5 (seg new) \<noteq> None"
    and el5: "el_get s5 new = el" by simp_all
  have pub6: "segments s6 = segments s5" by (simp add: s6_def)
  have get6: "\<And>a. el_get s6 a = el_get s5 a" by (simp add: s6_def)
  have pub12: "\<And>k. (segments s12 k = None) = (segments s5 k = None)"
    by (simp add: s12_def segments_relink_None pub6)
  have p5: "segments s5 j \<noteq> None" if "segments s j \<noteq> None" for j
    using append_el_published [OF app, of j] that pub4 [of j] by simp
  have p6: "segments s6 j \<noteq> None" if "segments s j \<noteq> None" for j
    using p5 [OF that] by (simp add: pub6)
  have pn6: "segments s6 (seg new) \<noteq> None" using pn5 by (simp add: pub6)
  have c1: "first_out_arc (el_get s' beg) = new"
    unfolding get' s12_def by (rule relink_heads(1) [OF p6 [OF pb] p6 [OF pe]])
  have c2: "first_in_arc (el_get s' end_addr) = new"
    unfolding get' s12_def by (rule relink_heads(2) [OF p6 [OF pb] p6 [OF pe]])
  have c3: "arc_next_out_arc (el_get s' new) = first_out_arc (el_get s beg)"
    unfolding get' s12_def fo [symmetric] by (rule relink_next(1) [OF pn6])
  have c4: "arc_next_in_arc (el_get s' new) = first_in_arc (el_get s end_addr)"
    unfolding get' s12_def fi [symmetric] by (rule relink_next(2) [OF pn6])
  have c5: "arc_prev_out_arc (el_get s' fo) = new" if "\<not> SC_ADDR_IS_EMPTY fo"
  proof -
    from f_out that have "f_out = Some fo" and "segments s (seg fo) \<noteq> None" by simp_all
    from relink_prev_out [OF p6 [OF this(2)]] this(1) show ?thesis
      unfolding get' s12_def by simp
  qed
  have c6: "arc_prev_in_arc (el_get s' fi) = new" if "\<not> SC_ADDR_IS_EMPTY fi"
  proof -
    from f_in that have "f_in = Some fi" and "segments s (seg fi) \<noteq> None" by simp_all
    from relink_prev_in [OF p6 [OF this(2)]] this(1) show ?thesis
      unfolding get' s12_def by simp
  qed
  have c7: "el_type (el_get s' new) = el_type el"
    unfolding get' s12_def relink_type get6 el5 ..
  have c8: "segments s' (seg new) \<noteq> None"
    using pn5 by (simp add: pub' pub12)
  have c9: "storage_wf K s' \<and> \<not> slot_live s new
            \<and> (\<forall>a. slot_live s a \<longrightarrow>
                  arc_next_out_arc (el_get s' a) = arc_next_out_arc (el_get s a)
                  \<and> arc_next_in_arc (el_get s' a) = arc_next_in_arc (el_get s a))"
    if wf: "storage_wf K s"
  proof -
    from wf same have wf4: "storage_wf K s4" by (simp add: same_elements_wf)
    from append_el_frame [OF app wf4]
    have wf5: "storage_wf K s5"
      and fr: "\<And>a. segments s4 (seg a) \<noteq> None \<Longrightarrow>
                 (if a = new then el_type (el_get s4 a) = 0 else el_get s5 a = el_get s4 a)"
      by auto
    have n5: "segments_num s' = segments_num s5"
      using u by (simp add: same_elements_def s12_def s6_def)
    from wf5 have wf': "storage_wf K s'"
      by (simp add: storage_wf_def pub' pub12 n5)
    have dead: "\<not> slot_live s new"
    proof
      assume "slot_live s new"
      then have "segments s4 (seg new) \<noteq> None" and "el_type (el_get s4 new) \<noteq> 0"
        by (simp_all add: slot_live_iff pub4 get4)
      with fr [of new] show False by simp
    qed
    have keep: "arc_next_out_arc (el_get s' a) = arc_next_out_arc (el_get s a)
                \<and> arc_next_in_arc (el_get s' a) = arc_next_in_arc (el_get s a)"
      if live: "slot_live s a" for a
    proof -
      from live dead have an: "a \<noteq> new" by auto
      from live have "segments s4 (seg a) \<noteq> None" by (simp add: slot_live_iff pub4)
      from fr [OF this] an have "el_get s5 a = el_get s a" by (simp add: get4)
      with relink_other_next [OF an, of beg end_addr fo fi f_out f_in new s6]
      show ?thesis by (simp add: get' s12_def get6)
    qed
    from wf' dead keep show ?thesis by blast
  qed
  show ?thesis
    unfolding arc_new_post_def
    using r ne c1 c2 c3 c4 c5 c6 c7 c8 c9 fo fi by blast
qed

subsection \<open>Facts about arc creation and about new nodes and links\<close>

lemma IS_EMPTY_EMPTY [simp]: "SC_ADDR_IS_EMPTY SC_ADDR_EMPTY"
  by (simp add: SC_ADDR_IS_EMPTY_def SC_ADDR_EMPTY_def)

lemma same_elements_get: "same_elements s s1 \<Longrightarrow> el_get s1 a = el_get s a"
  by (simp add: same_elements_def)

lemma same_elements_pub: "same_elements s s1 \<Longrightarrow> (segments s1 k = None) = (segments s k = None)"
  by (simp add: same_elements_def)

lemma arc_new_attempt_result:
  assumes att: "arc_new_attempt K ctx el beg end_addr s = Some (Returned (r, new, s'))"
  shows "if SC_ADDR_IS_EMPTY new then same_elements s s'
         else r = SC_RESULT_OK \<and> arc_new_post K el beg end_addr s new s'"
proof -
  obtain r1 p1 s1 where
    l1: "sc_storage_element_lock_try K ctx beg s_max_storage_lock_attempts s = (r1, p1, s1)"
    by (metis prod_cases3)
  from lock_try_cases [OF l1]
  consider (fail1) "p1 = None" "s1 = s"
    | (ok1) "p1 = Some beg" "r1 = SC_RESULT_OK" "segments s (seg beg) \<noteq> None"
        "same_elements s s1"
    by blast
  then show ?thesis
  proof cases
    case fail1
    with att l1 show ?thesis
      by (auto simp: arc_new_attempt_def intro!: arc_new_unlock_same)
  next
    case ok1
    obtain r2 p2 s2 where
      l2: "sc_storage_element_lock_try K ctx end_addr s_max_storage_lock_attempts s1 = (r2, p2, s2)"
      by (metis prod_cases3)
    from lock_try_cases [OF l2]
    consider (fail2) "p2 = None" "s2 = s1"
      | (ok2) "p2 = Some end_addr" "r2 = SC_RESULT_OK" "segments s1 (seg end_addr) \<noteq> None"
          "same_elements s1 s2"
      by blast
    then show ?thesis
    proof cases
      case fail2
      with att l1 l2 ok1 show ?thesis
        by (auto simp: arc_new_attempt_def intro!: arc_new_unlock_same)
    next
      case ok2
      from ok1(4) ok2(4) have same2: "same_elements s s2" by (rule same_elements_trans)
      let ?fo = "first_out_arc (el_get s2 beg)"
      have fo: "?fo = first_out_arc (el_get s beg)"
        by (simp add: same_elements_get [OF same2])
      obtain r3 f_out s3 where
        l3: "(if SC_ADDR_IS_NOT_EMPTY ?fo
              then sc_storage_element_lock_try K ctx ?fo s_max_storage_lock_attempts s2
              else (r2, None, s2)) = (r3, f_out, s3)"
        by (metis prod_cases3)
      have c3: "(SC_ADDR_IS_NOT_EMPTY ?fo \<and> f_out = None \<and> s3 = s2)
          \<or> (r3 = SC_RESULT_OK \<and> same_elements s2 s3
              \<and> (if SC_ADDR_IS_EMPTY ?fo then f_out = None
                  else f_out = Some ?fo \<and> segments s (seg ?fo) \<noteq> None))"
      proof (cases "SC_ADDR_IS_NOT_EMPTY ?fo")
        case True
        with l3 have "sc_storage_element_lock_try K ctx ?fo s_max_storage_lock_attempts s2
            = (r3, f_out, s3)" by simp
        from lock_try_cases [OF this] True same_elements_pub [OF same2, of "seg ?fo"]
        show ?thesis by (auto simp: SC_ADDR_IS_NOT_EMPTY_def)
      next
        case False
        with l3 ok2(2) show ?thesis by (auto simp: SC_ADDR_IS_NOT_EMPTY_def)
      qed
      from c3 show ?thesis
      proof (elim disjE conjE)
        assume "SC_ADDR_IS_NOT_EMPTY ?fo" "f_out = None" "s3 = s2"
        with att l1 l2 l3 ok1 ok2 same2 show ?thesis
          by (auto simp: arc_new_attempt_def Let_def
                intro!: arc_new_unlock_same)
      next
        assume r3: "r3 = SC_RESULT_OK" and same23: "same_elements s2 s3"
          and f_out: "if SC_ADDR_IS_EMPTY ?fo then f_out = None
                  else f_out = Some ?fo \<and> segments s (seg ?fo) \<noteq> None"
        from same2 same23 have same3: "same_elements s s3" by (rule same_elements_trans)
        let ?fi = "first_in_arc (el_get s3 end_addr)"
        have fi: "?fi = first_in_arc (el_get s end_addr)"
          by (simp add: same_elements_get [OF same3])
        obtain r4 f_in s4 where
          l4: "(if SC_ADDR_IS_NOT_EMPTY ?fi
                then sc_storage_element_lock_try K ctx ?fi s_max_storage_lock_attempts s3
                else (r3, None, s3)) = (r4, f_in, s4)"
          by (metis prod_cases3)
        have c4: "(SC_ADDR_IS_NOT_EMPTY ?fi \<and> f_in = None \<and> s4 = s3)
            \<or> (r4 = SC_RESULT_OK \<and> same_elements s3 s4
                \<and> (if SC_ADDR_IS_EMPTY ?fi then f_in = None
                    else f_in = Some ?fi \<and> segments s (seg ?fi) \<noteq> None))"
        proof (cases "SC_ADDR_IS_NOT_EMPTY ?fi")
          case True
          with l4 have "sc_storage_element_lock_try K ctx ?fi s_max_storage_lock_attempts s3
              = (r4, f_in, s4)" by simp
          from lock_try_cases [OF this] True same_elements_pub [OF same3, of "seg ?fi"]
          show ?thesis by (auto simp: SC_ADDR_IS_NOT_EMPTY_def)
        next
          case False
          with l4 r3 show ?thesis by (auto simp: SC_ADDR_IS_NOT_EMPTY_def)
        qed
        have nf: "\<not> (SC_ADDR_IS_NOT_EMPTY ?fo \<and> f_out = None)"
          using f_out by (auto simp: SC_ADDR_IS_NOT_EMPTY_def)
        from c4 show ?thesis
        proof (elim disjE conjE)
          assume "SC_ADDR_IS_NOT_EMPTY ?fi" "f_in = None" "s4 = s3"
          with att l1 l2 l3 l4 ok1 ok2 same3 nf show ?thesis
            by (auto simp: arc_new_attempt_def Let_def
                  intro!: arc_new_unlock_same)
        next
          assume r4: "r4 = SC_RESULT_OK" and same34: "same_elements s3 s4"
            and f_in: "if SC_ADDR_IS_EMPTY ?fi then f_in = None
                    else f_in = Some ?fi \<and> segments s (seg ?fi) \<noteq> None"
          from same3 same34 have same4: "same_elements s s4" by (rule same_elements_trans)
          have nfi: "\<not> (SC_ADDR_IS_NOT_EMPTY ?fi \<and> f_in = None)"
            using f_in by (auto simp: SC_ADDR_IS_NOT_EMPTY_def)
          from att l1 l2 l3 l4 ok1 ok2 nf nfi
          have link: "arc_new_link K ctx el beg end_addr r4 beg end_addr ?fo ?fi f_out f_in s4
             = Some (Returned (r, new, s'))"
            by (auto simp: arc_new_attempt_def Let_def)
          have pe: "segments s (seg end_addr) \<noteq> None"
            using ok2(3) same_elements_pub [OF ok1(4), of "seg end_addr"] by simp
          from arc_new_link_post [OF link same4 ok1(3) pe fo fi f_out f_in] r4
          show ?thesis by simp
        qed
      qed
    qed
  qed
qed


lemma arc_new_loop_post:
  "arc_new_loop K ctx el beg end_addr s = Some y \<Longrightarrow>
     (\<forall>new s'. y = Returned (new, s') \<longrightarrow> \<not> SC_ADDR_IS_EMPTY new \<longrightarrow>
        arc_new_post K el beg end_addr s new s')"
proof (induction rule: arc_new_loop.raw_induct [rotated 1, consumes 1, case_names step])
  case (step loop K ctx el beg end_addr s y)
  note IH = step(1) and body = step(2)
  show ?case
  proof (cases "arc_new_attempt K ctx el beg end_addr s")
    case None
    with body show ?thesis by simp
  next
    case (Some g)
    note att = this
    show ?thesis
    proof (cases g)
      case Aborted
      with att body show ?thesis by auto
    next
      case (Returned t)
      obtain r addr s1 where t: "t = (r, addr, s1)" by (cases t)
      note att' = att [unfolded Returned t]
      note res = arc_new_attempt_result [OF att']
      show ?thesis
      proof (intro allI impI)
        fix new s'
        assume yR: "y = Returned (new, s')" and ne: "\<not> SC_ADDR_IS_EMPTY new"
        show "arc_new_post K el beg end_addr s new s'"
        proof (cases "SC_ADDR_IS_EMPTY addr")
          case True
          with res have same: "same_elements s s1" by simp
          show ?thesis
          proof (cases "r = SC_RESULT_OK")
            case True
            with att' body \<open>SC_ADDR_IS_EMPTY addr\<close>
            have "loop K ctx el beg end_addr s1 = Some y" by simp
            from IH [OF this, rule_format, OF yR ne]
            show ?thesis by (rule arc_new_post_same [OF same])
          next
            case False
            with att' body yR have "new = addr" by simp
            with True ne show ?thesis by simp
          qed
        next
          case False
          with res have post: "arc_new_post K el beg end_addr s addr s1" by simp
          from att' body False yR have "new = addr" and "s' = s1"
            by (auto split: if_splits)
          with post show ?thesis by simp
        qed
      qed
    qed
  qed
qed

lemma arc_new_result:
  assumes "sc_storage_arc_new K ctx type beg end_addr s = Some (Returned (new, s'))"
    and "\<not> SC_ADDR_IS_EMPTY new"
  shows "sc_type_node K AND type = 0
       \<and> arc_new_post K
            ((sc_element_zero K)\<lparr>el_type :=
                  (if type AND sc_type_arc_mask K \<noteq> 0 then type else sc_type_arc_common K OR type),
                arc_begin := beg, arc_end := end_addr\<rparr>)
            beg end_addr s new s'"
proof -
  from assms(1) have n: "sc_type_node K AND type = 0"
    by (auto simp: sc_storage_arc_new_def split: if_splits)
  with assms(1) have "arc_new_loop K ctx
             ((sc_element_zero K)\<lparr>el_type :=
                  (if type AND sc_type_arc_mask K \<noteq> 0 then type else sc_type_arc_common K OR type),
                arc_begin := beg, arc_end := end_addr\<rparr>)
             beg end_addr s = Some (Returned (new, s'))"
    by (simp add: sc_storage_arc_new_def)
  from arc_new_loop_post [OF this, rule_format, OF refl assms(2)] n
  show ?thesis by simp
qed

lemma get_element_type_value:
  assumes "seg addr < SC_ADDR_SEG_MAX K" and "segments s (seg addr) \<noteq> None"
  shows "fst (sc_storage_get_element_type K ctx addr s) = SC_RESULT_OK
       \<and> fst (snd (sc_storage_get_element_type K ctx addr s)) = Some (el_type (el_get s addr))"
  using assms
  by (auto simp: sc_storage_get_element_type_def sc_storage_element_lock_def
        sc_storage_element_unlock_def el_get_def
        sc_segment_lock_element_def sc_segment_unlock_element_def)

lemma node_new_result:
  assumes "sc_storage_node_new K ctx type s = Some (Returned (addr, s'))"
    and "\<not> SC_ADDR_IS_EMPTY addr"
  shows "sc_type_arc_mask K AND type = 0 \<and> seg addr < SC_ADDR_SEG_MAX K
       \<and> segments s' (seg addr) \<noteq> None
       \<and> el_get s' addr = (sc_element_zero K)\<lparr>el_type := sc_type_node K OR type\<rparr>"
proof -
  let ?el = "(sc_element_zero K)\<lparr>el_type := sc_type_node K OR type\<rparr>"
  from assms(1) have m: "sc_type_arc_mask K AND type = 0"
    by (auto simp: sc_storage_node_new_def split: if_splits)
  show ?thesis
  proof (cases "sc_storage_append_el_into_segments K ctx ?el s")
    case None
    with assms(1) m show ?thesis by (simp add: sc_storage_node_new_def)
  next
    case (Some g)
    show ?thesis
    proof (cases g)
      case Aborted
      with Some assms(1) m show ?thesis by (simp add: sc_storage_node_new_def)
    next
      case (Returned t)
      obtain p a s1 where t: "t = (p, a, s1)" by (cases t)
      note app = Some [unfolded Returned t]
      show ?thesis
      proof (cases p)
        case None
        with app assms m show ?thesis by (auto simp: sc_storage_node_new_def)
      next
        case (Some tp)
        with append_el_result [OF app]
        have pa: "segments s1 (seg a) \<noteq> None" and el: "el_get s1 a = ?el" by simp_all
        from assms(1) m app Some
        have ok: "fst (sc_storage_element_unlock K ctx a s1) = SC_RESULT_OK"
          and addr: "addr = a" and s': "s' = snd (sc_storage_element_unlock K ctx a s1)"
          by (auto simp: sc_storage_node_new_def split: prod.splits if_splits)
        from ok have "seg a < SC_ADDR_SEG_MAX K" by (simp add: unlock_ok)
        with m pa el unlock_same [of s1 K ctx a] show ?thesis
          by (simp add: addr s' same_elements_def)
      qed
    qed
  qed
qed

lemma link_new_result:
  assumes "sc_storage_link_new K ctx s = Some (Returned (addr, s'))"
    and "\<not> SC_ADDR_IS_EMPTY addr"
  shows "seg addr < SC_ADDR_SEG_MAX K \<and> segments s' (seg addr) \<noteq> None
       \<and> el_get s' addr = (sc_element_zero K)\<lparr>el_type := sc_type_link K\<rparr>"
proof -
  let ?el = "(sc_element_zero K)\<lparr>el_type := sc_type_link K\<rparr>"
  show ?thesis
  proof (cases "sc_storage_append_el_into_segments K ctx ?el s")
    case None
    with assms(1) show ?thesis by (simp add: sc_storage_link_new_def)
  next
    case (Some g)
    show ?thesis
    proof (cases g)
      case Aborted
      with Some assms(1) show ?thesis by (simp add: sc_storage_link_new_def)
    next
      case (Returned t)
      obtain p a s1 where t: "t = (p, a, s1)" by (cases t)
      note app = Some [unfolded Returned t]
      show ?thesis
      proof (cases p)
        case None
        with app assms show ?thesis by (auto simp: sc_storage_link_new_def)
      next
        case (Some tp)
        with append_el_result [OF app]
        have pa: "segments s1 (seg a) \<noteq> None" and el: "el_get s1 a = ?el" by simp_all
        from assms(1) app Some
        have ok: "fst (sc_storage_element_unlock K ctx a s1) = SC_RESULT_OK"
          and addr: "addr = a" and s': "s' = snd (sc_storage_element_unlock K ctx a s1)"
          by (auto simp: sc_storage_link_new_def split: prod.splits if_splits)
        from ok have "seg a < SC_ADDR_SEG_MAX K" by (simp add: unlock_ok)
        with pa el unlock_same [of s1 K ctx a] show ?thesis
          by (simp add: addr s' same_elements_def)
      qed
    qed
  qed
qed

subsection \<open>Facts about the three loops of a free\<close>

lemma free_keeps_refl [simp]: "free_keeps s s"
  by (simp add: free_keeps_def)

lemma free_keeps_trans: "free_keeps s s1 \<Longrightarrow> free_keeps s1 s2 \<Longrightarrow> free_keeps s s2"
  by (simp add: free_keeps_def)

lemma same_elements_keeps: "same_elements s s1 \<Longrightarrow> free_keeps s s1"
  by (simp add: same_elements_def free_keeps_def)

lemma free_keeps_notified:
  "free_keeps s s1 \<Longrightarrow> free_notified K s1 evs a = free_notified K s evs a"
  by (simp add: free_keeps_def free_notified_def)

lemma free_notified_mono:
  "free_notified K s evs a \<Longrightarrow> set evs \<subseteq> set evs' \<Longrightarrow> free_notified K s evs' a"
  by (auto simp: free_notified_def)

lemma remove_element_events_append:
  "remove_element_events (xs @ ys) = remove_element_events xs @ remove_element_events ys"
  by (induction xs rule: remove_element_events.induct) simp_all

lemma free_keeps_el_upd_first_out:
  "free_keeps s (el_upd s a (\<lambda>e. e\<lparr>first_out_arc := v\<rparr>))"
  by (simp add: free_keeps_def el_upd_kept segments_el_upd_None)

lemma free_keeps_el_upd_first_in:
  "free_keeps s (el_upd s a (\<lambda>e. e\<lparr>first_in_arc := v\<rparr>))"
  by (simp add: free_keeps_def el_upd_kept segments_el_upd_None)

lemma free_keeps_emit: "free_keeps s (sc_event_emit e t a s)"
  by (simp add: free_keeps_def)

lemma free_lock_needed_same:
  assumes "free_lock_needed K ctx a (s, lt) = Returned (s1, lt1)"
  shows "same_elements s s1"
proof (cases "a \<in> set lt")
  case True
  with assms show ?thesis by (simp add: free_lock_needed_def)
next
  case False
  obtain r p s2 where l: "sc_storage_element_lock K ctx a s = (r, p, s2)"
    by (cases "sc_storage_element_lock K ctx a s") auto
  from lock_cases [OF l] assms False l show ?thesis
    by (auto simp: free_lock_needed_def split: if_splits)
qed

lemma free_lock_neighbour_same:
  assumes "free_lock_neighbour K ctx a (s, lt) = Returned (s1, lt1)"
  shows "same_elements s s1"
  using assms free_lock_needed_same [of K ctx a s lt s1 lt1]
  by (auto simp: free_lock_neighbour_def split: if_splits)


lemma event_log_emit:
  "event_log (sc_event_emit e t a s) = event_log s @ [Event_emit e t a]"
  by (simp add: sc_event_emit_def)

lemma event_log_notify:
  "event_log (sc_event_notify_element_deleted a s) = event_log s @ [Element_deleted a]"
  by (simp add: sc_event_notify_element_deleted_def)

lemma el_get_notify [simp]: "el_get (sc_event_notify_element_deleted a s) x = el_get s x"
  by (simp add: sc_event_notify_element_deleted_def el_get_def)

lemma segments_notify [simp]: "segments (sc_event_notify_element_deleted a s) = segments s"
  by (simp add: sc_event_notify_element_deleted_def)

lemma free_visit_arc_result:
  assumes "free_visit_arc K ctx a (s, lt) = Returned (s', lt')"
  shows "free_keeps s s'
       \<and> event_log s' = event_log s
            @ [Event_emit (arc_begin (el_get s a)) SC_EVENT_REMOVE_OUTPUT_ARC a,
               Event_emit (arc_end (el_get s a)) SC_EVENT_REMOVE_INPUT_ARC a]"
  using assms
  by (auto simp: free_visit_arc_def Let_def free_keeps_def same_elements_def el_upd_kept
        segments_el_upd_None event_log_emit
      split: outcome.splits
      dest!: free_lock_needed_same free_lock_neighbour_same)


lemma free_visit_result:
  assumes "free_visit K ctx a (s, rt, lt) = Returned (s', rt', lt')"
  shows "free_keeps s s' \<and> set rt' \<subseteq> insert a (set rt)
       \<and> (\<exists>evs. event_log s' = event_log s @ evs \<and> remove_element_events evs = []
                \<and> free_notified K s evs a)"
proof -
  from assms obtain s1 rt1 lt1 where
    v1: "(if a \<in> set lt then Returned (s, rt, lt)
          else (case sc_storage_element_lock K ctx a s of
                  (r, None, s1) \<Rightarrow> Aborted
                | (r, Some el, s1) \<Rightarrow>
                    if r \<noteq> SC_RESULT_OK \<or> el_type (el_get s1 el) = 0 then Aborted
                    else Returned (s1, table_insert a rt, table_insert a lt)))
         = Returned (s1, rt1, lt1)"
    and v2: "(let s2 = sc_event_notify_element_deleted a s1
              in if el_type (el_get s2 a) AND sc_type_arc_mask K \<noteq> 0
                 then (case free_visit_arc K ctx a (s2, lt1) of
                         Aborted \<Rightarrow> Aborted
                       | Returned (s3, lt3) \<Rightarrow> Returned (s3, rt1, lt3))
                 else Returned (s2, rt1, lt1)) = Returned (s', rt', lt')"
    unfolding free_visit_def by (auto split: outcome.splits)
  have same: "same_elements s s1" and sub: "set rt1 \<subseteq> insert a (set rt)"
  proof -
    obtain r p s2 where l: "sc_storage_element_lock K ctx a s = (r, p, s2)"
      by (cases "sc_storage_element_lock K ctx a s") auto
    from lock_cases [OF l] v1 l show "same_elements s s1"
      by (auto split: if_splits)
    from lock_cases [OF l] v1 l show "set rt1 \<subseteq> insert a (set rt)"
      by (auto simp: table_insert_def split: if_splits)
  qed
  let ?s2 = "sc_event_notify_element_deleted a s1"
  have k2: "free_keeps s ?s2"
    using same by (simp add: free_keeps_def same_elements_def)
  have log2: "event_log ?s2 = event_log s @ [Element_deleted a]"
    using same by (simp add: event_log_notify same_elements_def)
  have ty: "el_type (el_get ?s2 a) = el_type (el_get s a)"
    and bg: "arc_begin (el_get ?s2 a) = arc_begin (el_get s a)"
    and en: "arc_end (el_get ?s2 a) = arc_end (el_get s a)"
    using k2 by (simp_all add: free_keeps_def)
  show ?thesis
  proof (cases "el_type (el_get s a) AND sc_type_arc_mask K \<noteq> 0")
    case False
    with v2 ty have "s' = ?s2" "rt' = rt1" by (simp_all add: Let_def)
    with k2 log2 sub False show ?thesis
      by (auto simp: free_notified_def)
  next
    case True
    with v2 ty obtain lt3 where
      va: "free_visit_arc K ctx a (?s2, lt1) = Returned (s', lt3)" and r: "rt' = rt1"
      by (auto simp: Let_def split: outcome.splits)
    from free_visit_arc_result [OF va]
    have k3: "free_keeps ?s2 s'"
      and log3: "event_log s' = event_log ?s2
            @ [Event_emit (arc_begin (el_get ?s2 a)) SC_EVENT_REMOVE_OUTPUT_ARC a,
               Event_emit (arc_end (el_get ?s2 a)) SC_EVENT_REMOVE_INPUT_ARC a]"
      by simp_all
    from log3 log2 bg en have log: "event_log s' = event_log s
        @ [Element_deleted a,
           Event_emit (arc_begin (el_get s a)) SC_EVENT_REMOVE_OUTPUT_ARC a,
           Event_emit (arc_end (el_get s a)) SC_EVENT_REMOVE_INPUT_ARC a]"
      by simp
    from free_keeps_trans [OF k2 k3] sub r log show ?thesis
      by (auto simp: free_notified_def)
  qed
qed


lemma free_collect_out_result':
  "free_collect_out K ctx a st = Some y \<Longrightarrow>
     (\<forall>s rt lt rl s' rt' lt' rl'.
        st = (s, rt, lt, rl) \<longrightarrow> y = Returned (s', rt', lt', rl') \<longrightarrow>
        same_elements s s' \<and> set rl \<subseteq> set rl' \<and> set rt' \<subseteq> set rt \<union> set rl')"
proof (induction rule: free_collect_out.raw_induct [rotated 1, consumes 1, case_names step])
  case (step loop K ctx a st y)
  note IH = step(1) and body = step(2)
  show ?case
  proof (intro allI impI)
    fix s rt lt rl s' rt' lt' rl'
    assume st: "st = (s, rt, lt, rl)" and yR: "y = Returned (s', rt', lt', rl')"
    show "same_elements s s' \<and> set rl \<subseteq> set rl' \<and> set rt' \<subseteq> set rt \<union> set rl'"
    proof (cases "SC_ADDR_IS_NOT_EMPTY a")
      case False
      with body st yR show ?thesis by auto
    next
      case True
      note ne = this
      show ?thesis
      proof (cases "a \<in> set rt")
        case True
        with ne body st
        have "loop K ctx (arc_next_out_arc (el_get s a)) (s, rt, lt, rl) = Some y" by simp
        from IH [OF this, rule_format, OF refl yR] show ?thesis .
      next
        case False
        obtain r p s1 where l: "sc_storage_element_lock K ctx a s = (r, p, s1)"
          by (cases "sc_storage_element_lock K ctx a s") auto
        show ?thesis
        proof (cases p)
          case None
          with l ne False body st yR show ?thesis by simp
        next
          case (Some el2)
          with lock_cases [OF l] have same: "same_elements s s1" by auto
          from Some l ne False body st
          have "loop K ctx (arc_next_out_arc (el_get s1 el2))
                  (s1, table_insert a rt, table_insert a lt, rl @ [a]) = Some y"
            by simp
          from IH [OF this, rule_format, OF refl yR]
          have h: "same_elements s1 s'" "set (rl @ [a]) \<subseteq> set rl'"
            "set rt' \<subseteq> set (table_insert a rt) \<union> set rl'"
            by simp_all
          from h(2) have "set rl \<subseteq> set rl'" and "a \<in> set rl'" by auto
          moreover from h(3) \<open>a \<in> set rl'\<close> have "set rt' \<subseteq> set rt \<union> set rl'"
            by (auto simp: table_insert_def split: if_splits)
          ultimately show ?thesis
            using same_elements_trans [OF same h(1)] by simp
        qed
      qed
    qed
  qed
qed

lemma free_collect_out_result:
  assumes "free_collect_out K ctx a (s, rt, lt, rl) = Some (Returned (s', rt', lt', rl'))"
  shows "same_elements s s'" and "set rl \<subseteq> set rl'" and "set rt' \<subseteq> set rt \<union> set rl'"
  using free_collect_out_result' [OF assms, rule_format, OF refl refl] by simp_all

lemma free_collect_in_result':
  "free_collect_in K ctx a st = Some y \<Longrightarrow>
     (\<forall>s rt lt rl s' rt' lt' rl'.
        st = (s, rt, lt, rl) \<longrightarrow> y = Returned (s', rt', lt', rl') \<longrightarrow>
        same_elements s s' \<and> set rl \<subseteq> set rl' \<and> set rt' \<subseteq> set rt \<union> set rl')"
proof (induction rule: free_collect_in.raw_induct [rotated 1, consumes 1, case_names step])
  case (step loop K ctx a st y)
  note IH = step(1) and body = step(2)
  show ?case
  proof (intro allI impI)
    fix s rt lt rl s' rt' lt' rl'
    assume st: "st = (s, rt, lt, rl)" and yR: "y = Returned (s', rt', lt', rl')"
    show "same_elements s s' \<and> set rl \<subseteq> set rl' \<and> set rt' \<subseteq> set rt \<union> set rl'"
    proof (cases "SC_ADDR_IS_NOT_EMPTY a")
      case False
      with body st yR show ?thesis by auto
    next
      case True
      note ne = this
      show ?thesis
      proof (cases "a \<in> set rt")
        case True
        with ne body st
        have "loop K ctx (arc_next_in_arc (el_get s a)) (s, rt, lt, rl) = Some y" by simp
        from IH [OF this, rule_format, OF refl yR] show ?thesis .
      next
        case False
        obtain r p s1 where l: "sc_storage_element_lock K ctx a s = (r, p, s1)"
          by (cases "sc_storage_element_lock K ctx a s") auto
        show ?thesis
        proof (cases p)
          case None
          with l ne False body st yR show ?thesis by simp
        next
          case (Some el2)
          with lock_cases [OF l] have same: "same_elements s s1" by auto
          from Some l ne False body st
          have "loop K ctx (arc_next_in_arc (el_get s1 el2))
                  (s1, table_insert a rt, table_insert a lt, rl @ [a]) = Some y"
            by simp
          from IH [OF this, rule_format, OF refl yR]
          have h: "same_elements s1 s'" "set (rl @ [a]) \<subseteq> set rl'"
            "set rt' \<subseteq> set (table_insert a rt) \<union> set rl'"
            by simp_all
          from h(2) have "set rl \<subseteq> set rl'" and "a \<in> set rl'" by auto
          moreover from h(3) \<open>a \<in> set rl'\<close> have "set rt' \<subseteq> set rt \<union> set rl'"
            by (auto simp: table_insert_def split: if_splits)
          ultimately show ?thesis
            using same_elements_trans [OF same h(1)] by simp
        qed
      qed
    qed
  qed
qed

lemma free_collect_in_result:
  assumes "free_collect_in K ctx a (s, rt, lt, rl) = Some (Returned (s', rt', lt', rl'))"
  shows "same_elements s s'" and "set rl \<subseteq> set rl'" and "set rt' \<subseteq> set rt \<union> set rl'"
  using free_collect_in_result' [OF assms, rule_format, OF refl refl] by simp_all


lemma free_collect_result':
  "free_collect K ctx rl st = Some y \<Longrightarrow>
     (\<forall>s rt lt s' rt' lt'. st = (s, rt, lt) \<longrightarrow> y = Returned (s', rt', lt') \<longrightarrow>
        free_keeps s s'
        \<and> (\<exists>evs. event_log s' = event_log s @ evs \<and> remove_element_events evs = []
              \<and> (\<forall>x \<in> set rt'. (x \<in> set rt \<and> x \<notin> set rl) \<or> free_notified K s evs x)))"
proof (induction rule: free_collect.raw_induct [rotated 1, consumes 1, case_names step])
  case (step loop K ctx rl st y)
  note IH = step(1) and body = step(2)
  show ?case
  proof (intro allI impI)
    fix s rt lt s' rt' lt'
    assume st: "st = (s, rt, lt)" and yR: "y = Returned (s', rt', lt')"
    let ?goal = "free_keeps s s'
        \<and> (\<exists>evs. event_log s' = event_log s @ evs \<and> remove_element_events evs = []
              \<and> (\<forall>x \<in> set rt'. (x \<in> set rt \<and> x \<notin> set rl) \<or> free_notified K s evs x))"
    show ?goal
    proof (cases rl)
      case Nil
      with body st yR have "s' = s" "rt' = rt" by simp_all
      then show ?thesis using Nil by simp
    next
      case (Cons a rest)
      note rl = this
      show ?thesis
      proof (cases "free_visit K ctx a (s, rt, lt)")
        case Aborted
        with rl body st yR show ?thesis by simp
      next
        case (Returned t1)
        obtain s1 rt1 lt1 where t1: "t1 = (s1, rt1, lt1)" by (cases t1)
        note vis = Returned [unfolded t1]
        from free_visit_result [OF vis] obtain evs1 where
          k1: "free_keeps s s1" and sub1: "set rt1 \<subseteq> insert a (set rt)"
          and log1: "event_log s1 = event_log s @ evs1"
          and re1: "remove_element_events evs1 = []"
          and n1: "free_notified K s evs1 a"
          by blast
        show ?thesis
        proof (cases "free_collect_out K ctx (first_out_arc (el_get s1 a)) (s1, rt1, lt1, rest)")
          case None
          with rl vis body st yR show ?thesis by simp
        next
          case (Some o2)
          note co = this
          show ?thesis
          proof (cases o2)
            case Aborted
            with co rl vis body st yR show ?thesis by simp
          next
            case (Returned t2)
            obtain s2 rt2 lt2 rl2 where t2: "t2 = (s2, rt2, lt2, rl2)" by (cases t2)
            note co' = co [unfolded Returned t2]
            note r2 = free_collect_out_result [OF co']
            show ?thesis
            proof (cases "free_collect_in K ctx (first_in_arc (el_get s2 a)) (s2, rt2, lt2, rl2)")
              case None
              with co' rl vis body st yR show ?thesis by simp
            next
              case (Some o3)
              note ci = this
              show ?thesis
              proof (cases o3)
                case Aborted
                with ci co' rl vis body st yR show ?thesis by simp
              next
                case (Returned t3)
                obtain s3 rt3 lt3 rl3 where t3: "t3 = (s3, rt3, lt3, rl3)" by (cases t3)
                note ci' = ci [unfolded Returned t3]
                note r3 = free_collect_in_result [OF ci']
                from ci' co' rl vis body st
                have "loop K ctx rl3 (s3, rt3, lt3) = Some y" by simp
                from IH [OF this, rule_format, OF refl yR] obtain evs2 where
                  k4: "free_keeps s3 s'"
                  and log4: "event_log s' = event_log s3 @ evs2"
                  and re4: "remove_element_events evs2 = []"
                  and n4: "\<forall>x \<in> set rt'. (x \<in> set rt3 \<and> x \<notin> set rl3)
                              \<or> free_notified K s3 evs2 x"
                  by blast
                have same13: "same_elements s1 s3"
                  by (rule same_elements_trans [OF r2(1) r3(1)])
                have k3: "free_keeps s s3"
                  by (rule free_keeps_trans [OF k1 same_elements_keeps [OF same13]])
                have keeps: "free_keeps s s'" by (rule free_keeps_trans [OF k3 k4])
                have log: "event_log s' = event_log s @ (evs1 @ evs2)"
                  using log4 log1 same13 by (simp add: same_elements_def)
                have re: "remove_element_events (evs1 @ evs2) = []"
                  using re1 re4 by (simp add: remove_element_events_append)
                have n: "(x \<in> set rt \<and> x \<notin> set rl) \<or> free_notified K s (evs1 @ evs2) x"
                  if x: "x \<in> set rt'" for x
                proof (cases "free_notified K s3 evs2 x")
                  case True
                  then have "free_notified K s evs2 x"
                    by (simp add: free_keeps_notified [OF k3])
                  then have "free_notified K s (evs1 @ evs2) x"
                    by (rule free_notified_mono) simp
                  then show ?thesis ..
                next
                  case False
                  with n4 x have x3: "x \<in> set rt3" and nx3: "x \<notin> set rl3" by auto
                  from nx3 r3(2) have nx2: "x \<notin> set rl2" by auto
                  with x3 nx3 r3(3) have x2: "x \<in> set rt2" by auto
                  from nx2 r2(2) have nxr: "x \<notin> set rest" by auto
                  with x2 nx2 r2(3) have x1: "x \<in> set rt1" by auto
                  show ?thesis
                  proof (cases "x = a")
                    case True
                    from n1 have "free_notified K s (evs1 @ evs2) a"
                      by (rule free_notified_mono) simp
                    with True show ?thesis by simp
                  next
                    case False
                    with x1 sub1 nxr rl show ?thesis by auto
                  qed
                qed
                from keeps log re n show ?thesis by blast
              qed
            qed
          qed
        qed
      qed
    qed
  qed
qed

lemma free_collect_result:
  assumes "free_collect K ctx [addr] (s, [addr], [addr]) = Some (Returned (s', rt', lt'))"
  shows "free_keeps s s'
       \<and> (\<exists>evs. event_log s' = event_log s @ evs \<and> remove_element_events evs = []
             \<and> (\<forall>x \<in> set rt'. free_notified K s evs x))"
  using free_collect_result' [OF assms, rule_format, OF refl refl] by simp


lemma free_endpoint_same:
  assumes "free_endpoint K ctx a lt s = Returned (b, s1)"
  shows "same_elements s s1"
proof (cases "a \<in> set lt")
  case True
  with assms show ?thesis by (simp add: free_endpoint_def)
next
  case False
  obtain r p s2 where l: "sc_storage_element_lock K ctx a s = (r, p, s2)"
    by (cases "sc_storage_element_lock K ctx a s") auto
  from lock_cases [OF l] assms False l show ?thesis
    by (auto simp: free_endpoint_def split: if_splits)
qed

lemma free_unlink_out_result:
  assumes "free_unlink_out K ctx addr lt s = Returned (b_el, s')"
  shows "event_log s' = event_log s
       \<and> (\<forall>k. (segments s' k = None) = (segments s k = None))
       \<and> (\<forall>x. el_type (el_get s' x) = el_type (el_get s x))"
  using assms unlock_same
  by (auto simp: free_unlink_out_def Let_def same_elements_def el_upd_kept
        segments_el_upd_None
      split: outcome.splits if_splits
      dest!: free_endpoint_same)

lemma free_unlink_in_result:
  assumes "free_unlink_in K ctx addr b_el lt s = Returned s'"
  shows "event_log s' = event_log s
       \<and> (\<forall>k. (segments s' k = None) = (segments s k = None))
       \<and> (\<forall>x. el_type (el_get s' x) = el_type (el_get s x))"
  using assms unlock_same
  by (auto simp: free_unlink_in_def Let_def same_elements_def el_upd_kept
        segments_el_upd_None
      split: outcome.splits if_splits
      dest!: free_endpoint_same)


lemma free_erase_result:
  assumes "free_erase K ctx addr lt s = Returned s'"
  shows "event_log s' = event_log s
       \<and> (\<forall>k. (segments s' k = None) = (segments s k = None))
       \<and> (\<forall>x. x \<noteq> addr \<longrightarrow> el_type (el_get s' x) = el_type (el_get s x))"
proof -
  from assms obtain s1 sg where
    u: "(if el_type (el_get s addr) AND sc_type_arc_mask K \<noteq> 0
         then free_unlink_arc K ctx addr lt s else Returned s) = Returned s1"
    and sg: "segments s1 (seg addr) = Some sg"
    and s': "s' = sc_segment_cache_append K ctx (seg addr)
                 (s1\<lparr>segments := (segments s1)
                       (seg addr \<mapsto> sc_segment_erase_element sg (offset addr))\<rparr>)"
    by (auto simp: free_erase_def split: outcome.splits option.splits)
  have k1: "event_log s1 = event_log s
       \<and> (\<forall>k. (segments s1 k = None) = (segments s k = None))
       \<and> (\<forall>x. el_type (el_get s1 x) = el_type (el_get s x))"
  proof (cases "el_type (el_get s addr) AND sc_type_arc_mask K \<noteq> 0")
    case False
    with u show ?thesis by simp
  next
    case True
    with u obtain b_el s0 where
      uo: "free_unlink_out K ctx addr lt s = Returned (b_el, s0)"
      and ui: "free_unlink_in K ctx addr b_el lt s0 = Returned s1"
      by (auto simp: free_unlink_arc_def split: outcome.splits)
    from free_unlink_out_result [OF uo] free_unlink_in_result [OF ui]
    show ?thesis by simp
  qed
  have seg': "segments s' = (segments s1)
                       (seg addr \<mapsto> sc_segment_erase_element sg (offset addr))"
    and log': "event_log s' = event_log s1"
    by (simp_all add: s' cache_append_frame)
  have ty: "el_type (el_get s' x) = el_type (el_get s1 x)" if "x \<noteq> addr" for x
    using that sg
    by (cases x, cases addr)
       (auto simp: el_get_def seg' sc_segment_erase_element_def sc_segment_unlock_element_def)
  have pub1: "(segments s1 k = None) = (segments s k = None)" for k
    using k1 by blast
  have pub: "(segments s' k = None) = (segments s k = None)" for k
  proof (cases "k = seg addr")
    case True
    with pub1 [of k] sg show ?thesis by (simp add: seg')
  next
    case False
    with pub1 [of k] show ?thesis by (simp add: seg')
  qed
  from k1 log' have "event_log s' = event_log s" by simp
  moreover from k1 ty have "\<forall>x. x \<noteq> addr \<longrightarrow> el_type (el_get s' x) = el_type (el_get s x)"
    by simp
  ultimately show ?thesis using pub by blast
qed

lemma free_erase_all_result:
  "free_erase_all K ctx keys lt s = Returned s' \<Longrightarrow>
     event_log s' = event_log s
     \<and> (\<forall>k. (segments s' k = None) = (segments s k = None))
     \<and> (\<forall>x. x \<notin> set keys \<longrightarrow> el_type (el_get s' x) = el_type (el_get s x))"
proof (induction keys arbitrary: s)
  case Nil
  then show ?case by simp
next
  case (Cons addr keys)
  from Cons.prems obtain s1 where
    e: "free_erase K ctx addr lt s = Returned s1"
    and r: "free_erase_all K ctx keys lt s1 = Returned s'"
    by (auto split: outcome.splits)
  from free_erase_result [OF e] Cons.IH [OF r] show ?case by simp
qed

lemma free_unlock_all_same: "same_elements s (free_unlock_all K ctx keys s)"
proof (induction keys arbitrary: s)
  case Nil
  then show ?case by simp
next
  case (Cons addr keys)
  show ?case
    using same_elements_trans [OF unlock_same Cons.IH] by simp
qed

subsection \<open>Facts about scripted runs\<close>

lemma run_script_append:
  "run_script K (cs @ ds) st =
     (case run_script K cs st of
        None \<Rightarrow> None
      | Some Aborted \<Rightarrow> Some Aborted
      | Some (Returned st') \<Rightarrow> run_script K ds st')"
  by (induction K cs st rule: run_script.induct)
     (auto split: option.splits outcome.splits)

lemma run_append:
  "run K cs = Some (Returned st) \<Longrightarrow> run K (cs @ ds) = run_script K ds st"
  by (simp add: run_def run_script_append)

lemma script_reuse_evaluated:
  "(case run K_std script_reuse of
      Some (Returned (as, rs, s)) \<Rightarrow>
        as = [\<lparr>seg = 0, offset = 1\<rparr>, \<lparr>seg = 0, offset = 2\<rparr>, \<lparr>seg = 0, offset = 3\<rparr>,
              \<lparr>seg = 0, offset = 4\<rparr>, \<lparr>seg = 0, offset = 5\<rparr>, \<lparr>seg = 0, offset = 6\<rparr>,
              \<lparr>seg = 0, offset = 4\<rparr>]
        \<and> rs = [SC_RESULT_OK, SC_RESULT_OK, SC_RESULT_OK]
        \<and> storage_wf K_std s
        \<and> first_out_arc (el_get s \<lparr>seg = 0, offset = 1\<rparr>) = \<lparr>seg = 0, offset = 5\<rparr>
        \<and> arc_next_out_arc (el_get s \<lparr>seg = 0, offset = 5\<rparr>) = \<lparr>seg = 0, offset = 3\<rparr>
        \<and> slot_live s \<lparr>seg = 0, offset = 5\<rparr>
        \<and> \<not> slot_live s \<lparr>seg = 0, offset = 3\<rparr>
        \<and> (case sc_storage_arc_new K_std 0 8 \<lparr>seg = 0, offset = 1\<rparr> \<lparr>seg = 0, offset = 2\<rparr> s of
              Some (Returned (new, s')) \<Rightarrow>
                new = \<lparr>seg = 0, offset = 3\<rparr>
                \<and> first_out_arc (el_get s' \<lparr>seg = 0, offset = 1\<rparr>) = \<lparr>seg = 0, offset = 3\<rparr>
                \<and> arc_next_out_arc (el_get s' \<lparr>seg = 0, offset = 3\<rparr>) = \<lparr>seg = 0, offset = 5\<rparr>
                \<and> arc_next_out_arc (el_get s' \<lparr>seg = 0, offset = 5\<rparr>) = \<lparr>seg = 0, offset = 3\<rparr>
                \<and> first_in_arc (el_get s' \<lparr>seg = 0, offset = 2\<rparr>) = \<lparr>seg = 0, offset = 3\<rparr>
                \<and> arc_next_in_arc (el_get s' \<lparr>seg = 0, offset = 3\<rparr>) = \<lparr>seg = 0, offset = 5\<rparr>
                \<and> arc_next_in_arc (el_get s' \<lparr>seg = 0, offset = 5\<rparr>) = \<lparr>seg = 0, offset = 3\<rparr>
            | _ \<Rightarrow> False)
    | _ \<Rightarrow> False)"
  by (simp add: eval_defs script_reuse_def slot_live_def storage_wf_def cong: let_weak_cong)

subsection \<open>Reading the type of any slot\<close>

text \<open>
  C10. For every address whose segment index is below \<^verbatim>\<open>SC_ADDR_SEG_MAX\<close> and whose
  segment is published, \<^verbatim>\<open>sc_storage_get_element_type\<close> returns \<^verbatim>\<open>SC_RESULT_OK\<close> and
  writes the raw type field of the slot, whatever it is: for an empty slot it writes 0 and
  still returns \<^verbatim>\<open>SC_RESULT_OK\<close>. The elements are left as they were and the lock taken
  on the slot is given back.
\<close>

theorem get_element_type_raw:
  assumes "seg addr < SC_ADDR_SEG_MAX K" and "segments s (seg addr) = Some sg"
  shows "fst (sc_storage_get_element_type K ctx addr s) = SC_RESULT_OK
       \<and> fst (snd (sc_storage_get_element_type K ctx addr s))
           = Some (el_type (elements sg (offset addr)))
       \<and> (el_type (elements sg (offset addr)) = 0 \<longrightarrow>
            fst (sc_storage_get_element_type K ctx addr s) = SC_RESULT_OK
            \<and> fst (snd (sc_storage_get_element_type K ctx addr s)) = Some 0)
       \<and> (\<forall>a. el_get (snd (snd (sc_storage_get_element_type K ctx addr s))) a = el_get s a)
       \<and> lock_count (snd (snd (sc_storage_get_element_type K ctx addr s))) addr
           = lock_count s addr"
  using assms
  by (auto simp: sc_storage_get_element_type_def sc_storage_element_lock_def
        sc_storage_element_unlock_def el_get_def lock_count_def
        sc_segment_lock_element_def sc_segment_unlock_element_def)

text \<open>
  Witness: after one node has been created, the never-allocated slot 5 of segment 0 is
  read as type 0 with result \<^verbatim>\<open>SC_RESULT_OK\<close>.
\<close>

theorem get_element_type_raw_witness:
  "seg \<lparr>seg = 0, offset = 5\<rparr> < SC_ADDR_SEG_MAX K_std
   \<and> segments (run_storage K_std [Node 0]) 0 \<noteq> None
   \<and> fst (sc_storage_get_element_type K_std 0 \<lparr>seg = 0, offset = 5\<rparr>
            (run_storage K_std [Node 0])) = SC_RESULT_OK
   \<and> fst (snd (sc_storage_get_element_type K_std 0 \<lparr>seg = 0, offset = 5\<rparr>
            (run_storage K_std [Node 0]))) = Some 0"
  using get_element_type_raw [of "\<lparr>seg = 0, offset = 5\<rparr>" K_std
      "run_storage K_std [Node 0]" "the (segments (run_storage K_std [Node 0]) 0)" 0]
  by (simp add: eval_defs cong: let_weak_cong)

subsection \<open>Changing the subtype\<close>

text \<open>
  C7. \<^verbatim>\<open>sc_storage_change_element_subtype\<close> returns
  \<^verbatim>\<open>SC_RESULT_ERROR_INVALID_PARAMS\<close> exactly when \<^verbatim>\<open>type\<close> has a bit of
  \<^verbatim>\<open>sc_type_element_mask\<close>, and then the storage is unchanged. Otherwise, at an address
  that can be locked, it returns \<^verbatim>\<open>SC_RESULT_OK\<close>; the element at the address differs from
  the old one in the type field only; the class bits of the type are the old ones and the
  other bits are those of \<^verbatim>\<open>type\<close>; no other element changes.
\<close>

theorem change_element_subtype_frame:
  "(fst (sc_storage_change_element_subtype K ctx addr type s) = SC_RESULT_ERROR_INVALID_PARAMS
      \<longleftrightarrow> type AND sc_type_element_mask K \<noteq> 0)
   \<and> (type AND sc_type_element_mask K \<noteq> 0 \<longrightarrow>
        snd (sc_storage_change_element_subtype K ctx addr type s) = s)
   \<and> (type AND sc_type_element_mask K = 0 \<longrightarrow>
        (\<forall>a. a \<noteq> addr \<longrightarrow>
           el_get (snd (sc_storage_change_element_subtype K ctx addr type s)) a = el_get s a)
        \<and> (seg addr < SC_ADDR_SEG_MAX K \<and> segments s (seg addr) \<noteq> None \<longrightarrow>
             fst (sc_storage_change_element_subtype K ctx addr type s) = SC_RESULT_OK
             \<and> el_get (snd (sc_storage_change_element_subtype K ctx addr type s)) addr
                 = (el_get s addr)\<lparr>el_type :=
                      (el_type (el_get s addr) AND sc_type_element_mask K)
                        OR (type AND NOT (sc_type_element_mask K))\<rparr>
             \<and> el_type (el_get (snd (sc_storage_change_element_subtype K ctx addr type s)) addr)
                   AND sc_type_element_mask K
                 = el_type (el_get s addr) AND sc_type_element_mask K
             \<and> el_type (el_get (snd (sc_storage_change_element_subtype K ctx addr type s)) addr)
                   AND NOT (sc_type_element_mask K)
                 = type))"
proof -
  have bits: "type AND sc_type_element_mask K = 0 \<Longrightarrow>
      ((t AND sc_type_element_mask K) OR (type AND NOT (sc_type_element_mask K)))
         AND NOT (sc_type_element_mask K) = type" for t
    by (rule mask_new)
  show ?thesis
    by (auto simp: sc_storage_change_element_subtype_def sc_storage_element_lock_def
          sc_storage_element_unlock_def el_get_def el_upd_def mask_keep bits
          sc_segment_lock_element_def sc_segment_unlock_element_def split: option.splits)
qed

text \<open>
  Witness: on the node created by \<^verbatim>\<open>create_node(0)\<close>, whose type is the node bit, the
  subtype \<^verbatim>\<open>0x20\<close> is accepted and the type becomes \<^verbatim>\<open>0x21\<close>; the subtype \<^verbatim>\<open>0x2\<close>
  (the link class bit) is refused.
\<close>

theorem change_element_subtype_frame_witness:
  "(0x20 :: sc_type) AND sc_type_element_mask K_std = 0
   \<and> (0x2 :: sc_type) AND sc_type_element_mask K_std \<noteq> 0
   \<and> run_addr K_std [Node 0] 0 \<noteq> \<lparr>seg = 0, offset = 7\<rparr>
   \<and> seg (run_addr K_std [Node 0] 0) < SC_ADDR_SEG_MAX K_std
   \<and> segments (run_storage K_std [Node 0]) (seg (run_addr K_std [Node 0] 0)) \<noteq> None
   \<and> fst (sc_storage_change_element_subtype K_std 0 (run_addr K_std [Node 0] 0) 0x20
            (run_storage K_std [Node 0])) = SC_RESULT_OK
   \<and> el_type (el_get (snd (sc_storage_change_element_subtype K_std 0
            (run_addr K_std [Node 0] 0) 0x20 (run_storage K_std [Node 0])))
            (run_addr K_std [Node 0] 0)) = 0x21
   \<and> fst (sc_storage_change_element_subtype K_std 0 (run_addr K_std [Node 0] 0) 0x2
            (run_storage K_std [Node 0])) = SC_RESULT_ERROR_INVALID_PARAMS"
  using change_element_subtype_frame [of K_std 0 "run_addr K_std [Node 0] 0" "0x20"
      "run_storage K_std [Node 0]"]
    change_element_subtype_frame [of K_std 0 "run_addr K_std [Node 0] 0" "0x2"
      "run_storage K_std [Node 0]"]
  by (simp add: eval_defs cong: let_weak_cong)

subsection \<open>Freeing: concrete runs\<close>

text \<open>
  The chain \<open>a \<rightarrow> b \<rightarrow> c\<close> of the specification: \<^verbatim>\<open>free(b)\<close> returns
  \<^verbatim>\<open>SC_RESULT_OK\<close>, erases \<open>b\<close>, \<open>e1\<close> and \<open>e2\<close>, keeps \<open>a\<close> and \<open>c\<close>, and leaves
  \<^verbatim>\<open>a.first_out\<close> and \<^verbatim>\<open>c.first_in\<close> empty.
\<close>

lemma free_chain_middle:
  "run_results K_std (script_chain @ [Free 1]) = [SC_RESULT_OK]
   \<and> map (\<lambda>i. el_type (el_get (run_storage K_std (script_chain @ [Free 1]))
                 (run_addr K_std script_chain i))) [0, 1, 2, 3, 4] = [1, 0, 1, 0, 0]
   \<and> first_out_arc (el_get (run_storage K_std (script_chain @ [Free 1]))
        (run_addr K_std script_chain 0)) = SC_ADDR_EMPTY
   \<and> first_in_arc (el_get (run_storage K_std (script_chain @ [Free 1]))
        (run_addr K_std script_chain 2)) = SC_ADDR_EMPTY"
  by (simp add: eval_defs cong: let_weak_cong)

text \<open>
  C1 (the code departs from the claim). In the graph of \<open>script_arcs_into_arc\<close> the arc
  \<open>e'\<close> heads the input list of the arc \<open>x\<close>, and \<open>x\<close> heads the input list of the node
  \<open>n\<close>: \<open>e'\<close> belongs to the closure of \<open>n\<close>. \<^verbatim>\<open>free(n)\<close> returns \<^verbatim>\<open>SC_RESULT_OK\<close> and
  erases \<open>n\<close>, \<open>x\<close> and \<open>e\<close>, but \<open>e'\<close> keeps its type and still ends at the erased \<open>x\<close>:
  when \<open>e\<close> is visited, the assignment \<^verbatim>\<open>el2->first_in_arc = el->arc.next_in_arc\<close> empties
  the input list of \<open>x\<close> before \<open>x\<close> is visited.
\<close>

theorem free_leaves_incident_arc:
  "first_in_arc (el_get (run_storage K_std script_arcs_into_arc)
       (run_addr K_std script_arcs_into_arc 0)) = run_addr K_std script_arcs_into_arc 3
   \<and> first_in_arc (el_get (run_storage K_std script_arcs_into_arc)
       (run_addr K_std script_arcs_into_arc 3)) = run_addr K_std script_arcs_into_arc 5
   \<and> run_results K_std (script_arcs_into_arc @ [Free 0]) = [SC_RESULT_OK]
   \<and> map (\<lambda>i. el_type (el_get (run_storage K_std (script_arcs_into_arc @ [Free 0]))
                 (run_addr K_std script_arcs_into_arc i))) [0, 1, 2, 3, 4, 5]
       = [0, 1, 1, 0, 0, 8]
   \<and> arc_end (el_get (run_storage K_std (script_arcs_into_arc @ [Free 0]))
       (run_addr K_std script_arcs_into_arc 5)) = run_addr K_std script_arcs_into_arc 3"
  by (simp add: eval_defs cong: let_weak_cong)

text \<open>
  C3 (the code departs from the claim). In the graph of \<open>script_arc_from_arc\<close>,
  \<^verbatim>\<open>free(a)\<close> returns \<^verbatim>\<open>SC_RESULT_OK\<close> and erases \<open>a\<close>, \<open>e\<close> and \<open>e'\<close>; the node \<open>c\<close>
  survives, and its \<^verbatim>\<open>first_in_arc\<close> is left pointing at the erased arc \<open>e\<close>: in the
  erase loop \<open>e\<close> equals \<^verbatim>\<open>end.first_in\<close>, but the test reads the \<^verbatim>\<open>first_in_arc\<close> of
  the begin element \<open>a\<close>, so the head is not replaced by \<^verbatim>\<open>e.next_in\<close>, which is empty.
\<close>

theorem free_in_head_not_repaired:
  "run_results K_std (script_arc_from_arc @ [Free 0]) = [SC_RESULT_OK]
   \<and> map (\<lambda>i. el_type (el_get (run_storage K_std (script_arc_from_arc @ [Free 0]))
                 (run_addr K_std script_arc_from_arc i))) [0, 1, 2, 3] = [0, 1, 0, 0]
   \<and> first_in_arc (el_get (run_storage K_std (script_arc_from_arc @ [Free 0]))
        (run_addr K_std script_arc_from_arc 1)) = run_addr K_std script_arc_from_arc 2
   \<and> arc_next_in_arc (el_get (run_storage K_std (script_arc_from_arc @ [Free 0]))
        (run_addr K_std script_arc_from_arc 2)) = SC_ADDR_EMPTY
   \<and> run_addr K_std script_arc_from_arc 2 \<noteq> SC_ADDR_EMPTY"
  by (simp add: eval_defs cong: let_weak_cong)

text \<open>
  C5 (the code departs from the claim). A node is created and freed; a second
  \<^verbatim>\<open>free\<close> of the same address finds the slot empty and returns \<^verbatim>\<open>SC_RESULT_ERROR\<close>
  with the element unchanged, but the lock it took on the slot is still held: no lock was
  held on the slot before the call, one is held after it.
\<close>

theorem free_empty_keeps_lock:
  "run_results K_std [Node 0, Free 0, Free 0] = [SC_RESULT_OK, SC_RESULT_ERROR]
   \<and> el_type (el_get (run_storage K_std [Node 0, Free 0]) (run_addr K_std [Node 0] 0)) = 0
   \<and> el_get (run_storage K_std [Node 0, Free 0, Free 0]) (run_addr K_std [Node 0] 0)
       = el_get (run_storage K_std [Node 0, Free 0]) (run_addr K_std [Node 0] 0)
   \<and> lock_count (run_storage K_std [Node 0, Free 0]) (run_addr K_std [Node 0] 0) = 0
   \<and> lock_count (run_storage K_std [Node 0, Free 0, Free 0]) (run_addr K_std [Node 0] 0) = 1"
  by (simp add: eval_defs cong: let_weak_cong)

subsection \<open>The capacity ceiling: a concrete run\<close>

text \<open>
  C4 (the code departs from the claim). With \<open>K_small\<close>, three node creations leave
  \<^verbatim>\<open>segments_num\<close> equal to \<^verbatim>\<open>max_loaded_segments\<close>. A further \<^verbatim>\<open>create_node\<close> and
  \<^verbatim>\<open>create_link\<close> return the empty address and leave the storage as it was, but
  \<^verbatim>\<open>create_arc\<close> between the first two nodes does not return the empty address: it stops
  at \<^verbatim>\<open>g_assert(tmp_el != 0)\<close>.
\<close>

theorem arc_new_aborts_at_capacity:
  "segments_num (run_storage K_small [Node 0, Node 0, Node 0]) = max_loaded_segments K_small
   \<and> map (\<lambda>i. el_type (el_get (run_storage K_small [Node 0, Node 0, Node 0])
                 (run_addr K_small [Node 0, Node 0, Node 0] i))) [0, 1, 2] = [1, 1, 1]
   \<and> sc_storage_node_new K_small 0 0 (run_storage K_small [Node 0, Node 0, Node 0])
       = Some (Returned (SC_ADDR_EMPTY, run_storage K_small [Node 0, Node 0, Node 0]))
   \<and> sc_storage_link_new K_small 0 (run_storage K_small [Node 0, Node 0, Node 0])
       = Some (Returned (SC_ADDR_EMPTY, run_storage K_small [Node 0, Node 0, Node 0]))
   \<and> sc_storage_arc_new K_small 0 8
        (run_addr K_small [Node 0, Node 0, Node 0] 0)
        (run_addr K_small [Node 0, Node 0, Node 0] 1)
        (run_storage K_small [Node 0, Node 0, Node 0]) = Some Aborted"
  by (simp add: eval_defs cong: let_weak_cong)

subsection \<open>Creation: the composed type, the zeroed fields, the prepended arc\<close>

text \<open>
  C6. When \<^verbatim>\<open>sc_storage_node_new\<close>, \<^verbatim>\<open>sc_storage_link_new\<close> or
  \<^verbatim>\<open>sc_storage_arc_new\<close> returns a non-empty address, a following
  \<^verbatim>\<open>sc_storage_get_element_type\<close> on that address returns \<^verbatim>\<open>SC_RESULT_OK\<close> and the
  composed type: \<^verbatim>\<open>sc_type_node | type\<close> for a node (and then \<^verbatim>\<open>type\<close> had no bit of
  the arc mask), \<^verbatim>\<open>sc_type_link\<close> for a link, and for an arc \<^verbatim>\<open>type\<close> itself when it has
  a bit of the arc mask, \<^verbatim>\<open>sc_type_arc_common | type\<close> otherwise. For the arc the storage
  at the call is assumed to satisfy I4.
\<close>

theorem created_type_composed:
  "(sc_storage_node_new K ctx type s = Some (Returned (addr, s')) \<and> \<not> SC_ADDR_IS_EMPTY addr
      \<longrightarrow> sc_type_arc_mask K AND type = 0
          \<and> fst (sc_storage_get_element_type K ctx addr s') = SC_RESULT_OK
          \<and> fst (snd (sc_storage_get_element_type K ctx addr s'))
               = Some (sc_type_node K OR type))
   \<and> (sc_storage_link_new K ctx s = Some (Returned (addr, s')) \<and> \<not> SC_ADDR_IS_EMPTY addr
      \<longrightarrow> fst (sc_storage_get_element_type K ctx addr s') = SC_RESULT_OK
          \<and> fst (snd (sc_storage_get_element_type K ctx addr s')) = Some (sc_type_link K))
   \<and> (storage_wf K s
       \<and> sc_storage_arc_new K ctx type beg end_addr s = Some (Returned (addr, s'))
       \<and> \<not> SC_ADDR_IS_EMPTY addr
      \<longrightarrow> fst (sc_storage_get_element_type K ctx addr s') = SC_RESULT_OK
          \<and> fst (snd (sc_storage_get_element_type K ctx addr s'))
               = Some (if type AND sc_type_arc_mask K \<noteq> 0 then type
                       else sc_type_arc_common K OR type))"
proof (intro conjI impI)
  assume a: "sc_storage_node_new K ctx type s = Some (Returned (addr, s')) \<and> \<not> SC_ADDR_IS_EMPTY addr"
  from node_new_result [OF conjunct1 [OF a] conjunct2 [OF a]]
  have m: "sc_type_arc_mask K AND type = 0" and b: "seg addr < SC_ADDR_SEG_MAX K"
    and p: "segments s' (seg addr) \<noteq> None"
    and e: "el_get s' addr = (sc_element_zero K)\<lparr>el_type := sc_type_node K OR type\<rparr>"
    by simp_all
  from m show "sc_type_arc_mask K AND type = 0" .
  from get_element_type_value [OF b p, of ctx] e
  show "fst (sc_storage_get_element_type K ctx addr s') = SC_RESULT_OK"
    and "fst (snd (sc_storage_get_element_type K ctx addr s')) = Some (sc_type_node K OR type)"
    by simp_all
next
  assume a: "sc_storage_link_new K ctx s = Some (Returned (addr, s')) \<and> \<not> SC_ADDR_IS_EMPTY addr"
  from link_new_result [OF conjunct1 [OF a] conjunct2 [OF a]]
  have b: "seg addr < SC_ADDR_SEG_MAX K" and p: "segments s' (seg addr) \<noteq> None"
    and e: "el_get s' addr = (sc_element_zero K)\<lparr>el_type := sc_type_link K\<rparr>"
    by simp_all
  from get_element_type_value [OF b p, of ctx] e
  show "fst (sc_storage_get_element_type K ctx addr s') = SC_RESULT_OK"
    and "fst (snd (sc_storage_get_element_type K ctx addr s')) = Some (sc_type_link K)"
    by simp_all
next
  assume a: "storage_wf K s
       \<and> sc_storage_arc_new K ctx type beg end_addr s = Some (Returned (addr, s'))
       \<and> \<not> SC_ADDR_IS_EMPTY addr"
  then have wf: "storage_wf K s"
    and new: "sc_storage_arc_new K ctx type beg end_addr s = Some (Returned (addr, s'))"
    and ne: "\<not> SC_ADDR_IS_EMPTY addr" by simp_all
  from arc_new_result [OF new ne] wf
  have t: "el_type (el_get s' addr)
             = (if type AND sc_type_arc_mask K \<noteq> 0 then type else sc_type_arc_common K OR type)"
    and p: "segments s' (seg addr) \<noteq> None" and wf': "storage_wf K s'"
    by (simp_all add: arc_new_post_def)
  from wf' p have b: "seg addr < SC_ADDR_SEG_MAX K" by (simp add: storage_wf_def)
  from get_element_type_value [OF b p, of ctx] t
  show "fst (sc_storage_get_element_type K ctx addr s') = SC_RESULT_OK"
    and "fst (snd (sc_storage_get_element_type K ctx addr s'))
               = Some (if type AND sc_type_arc_mask K \<noteq> 0 then type
                       else sc_type_arc_common K OR type)"
    by simp_all
qed

text \<open>
  The theorem at a node created with subtype \<open>0x20\<close>, at a link, and at an arc created
  with a type that has no arc bit (\<open>0x40\<close>, stored as \<open>0x48\<close>).
\<close>

theorem created_type_composed_witness:
  "sc_storage_node_new K_std 0 0x20 storage_init
     = Some (Returned (run_addr K_std [Node 0x20] 0, run_storage K_std [Node 0x20]))
   \<and> \<not> SC_ADDR_IS_EMPTY (run_addr K_std [Node 0x20] 0)
   \<and> fst (snd (sc_storage_get_element_type K_std 0 (run_addr K_std [Node 0x20] 0)
                 (run_storage K_std [Node 0x20]))) = Some 0x21
   \<and> sc_storage_link_new K_std 0 storage_init
     = Some (Returned (run_addr K_std [Link] 0, run_storage K_std [Link]))
   \<and> \<not> SC_ADDR_IS_EMPTY (run_addr K_std [Link] 0)
   \<and> fst (snd (sc_storage_get_element_type K_std 0 (run_addr K_std [Link] 0)
                 (run_storage K_std [Link]))) = Some 0x2
   \<and> storage_wf K_std (run_storage K_std [Node 0, Node 0])
   \<and> sc_storage_arc_new K_std 0 0x40 (run_addr K_std [Node 0, Node 0] 0)
         (run_addr K_std [Node 0, Node 0] 1) (run_storage K_std [Node 0, Node 0])
     = Some (Returned (run_addr K_std [Node 0, Node 0, Arc 0x40 0 1] 2,
                       run_storage K_std [Node 0, Node 0, Arc 0x40 0 1]))
   \<and> \<not> SC_ADDR_IS_EMPTY (run_addr K_std [Node 0, Node 0, Arc 0x40 0 1] 2)
   \<and> fst (snd (sc_storage_get_element_type K_std 0
                 (run_addr K_std [Node 0, Node 0, Arc 0x40 0 1] 2)
                 (run_storage K_std [Node 0, Node 0, Arc 0x40 0 1]))) = Some 0x48"
proof -
  have n: "sc_storage_node_new K_std 0 0x20 storage_init
     = Some (Returned (run_addr K_std [Node 0x20] 0, run_storage K_std [Node 0x20]))
   \<and> \<not> SC_ADDR_IS_EMPTY (run_addr K_std [Node 0x20] 0)"
    by (simp add: eval_defs cong: let_weak_cong)
  have l: "sc_storage_link_new K_std 0 storage_init
     = Some (Returned (run_addr K_std [Link] 0, run_storage K_std [Link]))
   \<and> \<not> SC_ADDR_IS_EMPTY (run_addr K_std [Link] 0)"
    by (simp add: eval_defs cong: let_weak_cong)
  have a: "storage_wf K_std (run_storage K_std [Node 0, Node 0])
   \<and> sc_storage_arc_new K_std 0 0x40 (run_addr K_std [Node 0, Node 0] 0)
         (run_addr K_std [Node 0, Node 0] 1) (run_storage K_std [Node 0, Node 0])
     = Some (Returned (run_addr K_std [Node 0, Node 0, Arc 0x40 0 1] 2,
                       run_storage K_std [Node 0, Node 0, Arc 0x40 0 1]))
   \<and> \<not> SC_ADDR_IS_EMPTY (run_addr K_std [Node 0, Node 0, Arc 0x40 0 1] 2)"
    by (simp add: eval_defs storage_wf_def cong: let_weak_cong)
  have k: "sc_type_node K_std OR 0x20 = 0x21" "sc_type_link K_std = 0x2"
    "(if (0x40 :: sc_type) AND sc_type_arc_mask K_std \<noteq> 0 then 0x40
      else sc_type_arc_common K_std OR 0x40) = 0x48"
    by (simp_all add: K_std_def)
  note cn = created_type_composed [where K = K_std and ctx = 0 and type = "0x20"
      and s = storage_init and addr = "run_addr K_std [Node 0x20] 0"
      and s' = "run_storage K_std [Node 0x20]", THEN conjunct1, rule_format, OF n,
      unfolded k]
  note cl = created_type_composed [where K = K_std and ctx = 0
      and s = storage_init and addr = "run_addr K_std [Link] 0"
      and s' = "run_storage K_std [Link]", THEN conjunct2, THEN conjunct1, rule_format, OF l,
      unfolded k]
  note ca = created_type_composed [where K = K_std and ctx = 0 and type = "0x40"
      and s = "run_storage K_std [Node 0, Node 0]"
      and beg = "run_addr K_std [Node 0, Node 0] 0"
      and end_addr = "run_addr K_std [Node 0, Node 0] 1"
      and addr = "run_addr K_std [Node 0, Node 0, Arc 0x40 0 1] 2"
      and s' = "run_storage K_std [Node 0, Node 0, Arc 0x40 0 1]",
      THEN conjunct2, THEN conjunct2, rule_format, OF a, unfolded k]
  from n l a cn cl ca show ?thesis by blast
qed


text \<open>
  C9. An element created by \<^verbatim>\<open>sc_storage_node_new\<close> or \<^verbatim>\<open>sc_storage_link_new\<close> is the
  zero-initialised record with only the type set: both list heads are the empty address,
  the six arc fields are the empty address, and the content bytes are all zero.
\<close>

theorem new_node_link_zeroed:
  "(sc_storage_node_new K ctx type s = Some (Returned (addr, s')) \<and> \<not> SC_ADDR_IS_EMPTY addr
      \<longrightarrow> el_get s' addr = (sc_element_zero K)\<lparr>el_type := sc_type_node K OR type\<rparr>)
   \<and> (sc_storage_link_new K ctx s = Some (Returned (addr, s')) \<and> \<not> SC_ADDR_IS_EMPTY addr
      \<longrightarrow> el_get s' addr = (sc_element_zero K)\<lparr>el_type := sc_type_link K\<rparr>)
   \<and> ((sc_storage_node_new K ctx type s = Some (Returned (addr, s'))
         \<or> sc_storage_link_new K ctx s = Some (Returned (addr, s')))
        \<and> \<not> SC_ADDR_IS_EMPTY addr
      \<longrightarrow> first_out_arc (el_get s' addr) = SC_ADDR_EMPTY
          \<and> first_in_arc (el_get s' addr) = SC_ADDR_EMPTY
          \<and> arc_begin (el_get s' addr) = SC_ADDR_EMPTY
          \<and> arc_end (el_get s' addr) = SC_ADDR_EMPTY
          \<and> arc_next_out_arc (el_get s' addr) = SC_ADDR_EMPTY
          \<and> arc_prev_out_arc (el_get s' addr) = SC_ADDR_EMPTY
          \<and> arc_next_in_arc (el_get s' addr) = SC_ADDR_EMPTY
          \<and> arc_prev_in_arc (el_get s' addr) = SC_ADDR_EMPTY
          \<and> content_data (el_get s' addr) = replicate (SC_CHECKSUM_LEN K) 0)"
proof (intro conjI impI)
  assume a: "sc_storage_node_new K ctx type s = Some (Returned (addr, s'))
             \<and> \<not> SC_ADDR_IS_EMPTY addr"
  from node_new_result [OF conjunct1 [OF a] conjunct2 [OF a]]
  show "el_get s' addr = (sc_element_zero K)\<lparr>el_type := sc_type_node K OR type\<rparr>"
    by (elim conjE)
next
  assume a: "sc_storage_link_new K ctx s = Some (Returned (addr, s'))
             \<and> \<not> SC_ADDR_IS_EMPTY addr"
  from link_new_result [OF conjunct1 [OF a] conjunct2 [OF a]]
  show "el_get s' addr = (sc_element_zero K)\<lparr>el_type := sc_type_link K\<rparr>"
    by (elim conjE)
next
  assume a: "(sc_storage_node_new K ctx type s = Some (Returned (addr, s'))
         \<or> sc_storage_link_new K ctx s = Some (Returned (addr, s')))
        \<and> \<not> SC_ADDR_IS_EMPTY addr"
  then have ne: "\<not> SC_ADDR_IS_EMPTY addr" by (rule conjunct2)
  from a have "\<exists>t. el_get s' addr = (sc_element_zero K)\<lparr>el_type := t\<rparr>"
  proof (elim conjE disjE)
    assume "sc_storage_node_new K ctx type s = Some (Returned (addr, s'))"
    from node_new_result [OF this ne] show ?thesis by blast
  next
    assume "sc_storage_link_new K ctx s = Some (Returned (addr, s'))"
    from link_new_result [OF this ne] show ?thesis by blast
  qed
  then obtain t where e: "el_get s' addr = (sc_element_zero K)\<lparr>el_type := t\<rparr>" ..
  show "first_out_arc (el_get s' addr) = SC_ADDR_EMPTY"
    and "first_in_arc (el_get s' addr) = SC_ADDR_EMPTY"
    and "arc_begin (el_get s' addr) = SC_ADDR_EMPTY"
    and "arc_end (el_get s' addr) = SC_ADDR_EMPTY"
    and "arc_next_out_arc (el_get s' addr) = SC_ADDR_EMPTY"
    and "arc_prev_out_arc (el_get s' addr) = SC_ADDR_EMPTY"
    and "arc_next_in_arc (el_get s' addr) = SC_ADDR_EMPTY"
    and "arc_prev_in_arc (el_get s' addr) = SC_ADDR_EMPTY"
    and "content_data (el_get s' addr) = replicate (SC_CHECKSUM_LEN K) 0"
    by (simp_all add: e sc_element_zero_def)
qed

text \<open>
  Witness: the node created by \<^verbatim>\<open>create_node(0x20)\<close> and the link created by
  \<^verbatim>\<open>create_link()\<close> on the initial storage.
\<close>

theorem new_node_link_zeroed_witness:
  "sc_storage_node_new K_std 0 0x20 storage_init
     = Some (Returned (run_addr K_std [Node 0x20] 0, run_storage K_std [Node 0x20]))
   \<and> \<not> SC_ADDR_IS_EMPTY (run_addr K_std [Node 0x20] 0)
   \<and> el_get (run_storage K_std [Node 0x20]) (run_addr K_std [Node 0x20] 0)
       = (sc_element_zero K_std)\<lparr>el_type := sc_type_node K_std OR 0x20\<rparr>
   \<and> sc_storage_link_new K_std 0 storage_init
     = Some (Returned (run_addr K_std [Link] 0, run_storage K_std [Link]))
   \<and> \<not> SC_ADDR_IS_EMPTY (run_addr K_std [Link] 0)
   \<and> el_get (run_storage K_std [Link]) (run_addr K_std [Link] 0)
       = (sc_element_zero K_std)\<lparr>el_type := sc_type_link K_std\<rparr>
   \<and> first_out_arc (el_get (run_storage K_std [Link]) (run_addr K_std [Link] 0)) = SC_ADDR_EMPTY
   \<and> content_data (el_get (run_storage K_std [Link]) (run_addr K_std [Link] 0))
       = replicate (SC_CHECKSUM_LEN K_std) 0"
proof -
  have n: "sc_storage_node_new K_std 0 0x20 storage_init
     = Some (Returned (run_addr K_std [Node 0x20] 0, run_storage K_std [Node 0x20]))
   \<and> \<not> SC_ADDR_IS_EMPTY (run_addr K_std [Node 0x20] 0)"
    by (simp add: eval_defs cong: let_weak_cong)
  have l: "sc_storage_link_new K_std 0 storage_init
     = Some (Returned (run_addr K_std [Link] 0, run_storage K_std [Link]))
   \<and> \<not> SC_ADDR_IS_EMPTY (run_addr K_std [Link] 0)"
    by (simp add: eval_defs cong: let_weak_cong)
  from l have l': "(sc_storage_node_new K_std 0 0x20 storage_init
         = Some (Returned (run_addr K_std [Link] 0, run_storage K_std [Link]))
       \<or> sc_storage_link_new K_std 0 storage_init
         = Some (Returned (run_addr K_std [Link] 0, run_storage K_std [Link])))
     \<and> \<not> SC_ADDR_IS_EMPTY (run_addr K_std [Link] 0)"
    by blast
  note cn = new_node_link_zeroed [where K = K_std and ctx = 0 and type = "0x20"
      and s = storage_init and addr = "run_addr K_std [Node 0x20] 0"
      and s' = "run_storage K_std [Node 0x20]", THEN conjunct1, rule_format, OF n]
  note cl = new_node_link_zeroed [where K = K_std and ctx = 0 and type = "0x20"
      and s = storage_init and addr = "run_addr K_std [Link] 0"
      and s' = "run_storage K_std [Link]", THEN conjunct2, THEN conjunct1, rule_format, OF l]
  note cz = new_node_link_zeroed [where K = K_std and ctx = 0 and type = "0x20"
      and s = storage_init and addr = "run_addr K_std [Link] 0"
      and s' = "run_storage K_std [Link]", THEN conjunct2, THEN conjunct2, rule_format, OF l']
  from n l cn cl cz show ?thesis by blast
qed


text \<open>
  What every arc creation that returns a non-empty address \<open>new\<close> does to the two lists:
  the new arc is the head of the output list of \<open>beg\<close> and of the input list of
  \<open>end_addr\<close>; its \<^verbatim>\<open>next_out\<close> and \<^verbatim>\<open>next_in\<close> are the heads that \<open>beg\<close> and \<open>end_addr\<close>
  had at the call; an old head that was not empty has \<open>new\<close> as its \<^verbatim>\<open>prev_out\<close> (resp.
  \<^verbatim>\<open>prev_in\<close>). When the storage at the call satisfies I4 and the output list of \<open>beg\<close>
  is then a finite chain \<open>xs\<close> of live slots, the chain from \<^verbatim>\<open>beg.first_out\<close> is
  \<open>new # xs\<close> afterwards and \<open>new\<close> does not occur in \<open>xs\<close>: the traversal meets the new
  arc exactly once. Likewise for the input list of \<open>end_addr\<close>. The condition on the
  list is needed: after the run \<open>script_reuse\<close> the list of \<open>a\<close> is no chain of live
  slots.
\<close>

theorem arc_new_prepends:
  assumes "sc_storage_arc_new K ctx type beg end_addr s = Some (Returned (new, s'))"
    and "\<not> SC_ADDR_IS_EMPTY new"
  shows "first_out_arc (el_get s' beg) = new
       \<and> first_in_arc (el_get s' end_addr) = new
       \<and> arc_next_out_arc (el_get s' new) = first_out_arc (el_get s beg)
       \<and> arc_next_in_arc (el_get s' new) = first_in_arc (el_get s end_addr)
       \<and> (\<not> SC_ADDR_IS_EMPTY (first_out_arc (el_get s beg)) \<longrightarrow>
            arc_prev_out_arc (el_get s' (first_out_arc (el_get s beg))) = new)
       \<and> (\<not> SC_ADDR_IS_EMPTY (first_in_arc (el_get s end_addr)) \<longrightarrow>
            arc_prev_in_arc (el_get s' (first_in_arc (el_get s end_addr))) = new)
       \<and> (storage_wf K s \<longrightarrow>
            (\<forall>xs. out_chain s (first_out_arc (el_get s beg)) xs \<and> (\<forall>x \<in> set xs. slot_live s x)
               \<longrightarrow> out_chain s' (first_out_arc (el_get s' beg)) (new # xs)
                   \<and> new \<notin> set xs \<and> count_list (new # xs) new = 1)
            \<and> (\<forall>ys. in_chain s (first_in_arc (el_get s end_addr)) ys
                      \<and> (\<forall>y \<in> set ys. slot_live s y)
               \<longrightarrow> in_chain s' (first_in_arc (el_get s' end_addr)) (new # ys)
                   \<and> new \<notin> set ys \<and> count_list (new # ys) new = 1))"
proof -
  let ?el = "(sc_element_zero K)\<lparr>el_type :=
                  (if type AND sc_type_arc_mask K \<noteq> 0 then type else sc_type_arc_common K OR type),
                arc_begin := beg, arc_end := end_addr\<rparr>"
  from arc_new_result [OF assms] have post: "arc_new_post K ?el beg end_addr s new s'"
    by (rule conjunct2)
  then have h1: "first_out_arc (el_get s' beg) = new"
    and h2: "first_in_arc (el_get s' end_addr) = new"
    and h3: "arc_next_out_arc (el_get s' new) = first_out_arc (el_get s beg)"
    and h4: "arc_next_in_arc (el_get s' new) = first_in_arc (el_get s end_addr)"
    and h5: "\<not> SC_ADDR_IS_EMPTY (first_out_arc (el_get s beg)) \<longrightarrow>
            arc_prev_out_arc (el_get s' (first_out_arc (el_get s beg))) = new"
    and h6: "\<not> SC_ADDR_IS_EMPTY (first_in_arc (el_get s end_addr)) \<longrightarrow>
            arc_prev_in_arc (el_get s' (first_in_arc (el_get s end_addr))) = new"
    unfolding arc_new_post_def by blast+
  have chains: "(\<forall>xs. out_chain s (first_out_arc (el_get s beg)) xs \<and> (\<forall>x \<in> set xs. slot_live s x)
               \<longrightarrow> out_chain s' (first_out_arc (el_get s' beg)) (new # xs)
                   \<and> new \<notin> set xs \<and> count_list (new # xs) new = 1)
            \<and> (\<forall>ys. in_chain s (first_in_arc (el_get s end_addr)) ys
                      \<and> (\<forall>y \<in> set ys. slot_live s y)
               \<longrightarrow> in_chain s' (first_in_arc (el_get s' end_addr)) (new # ys)
                   \<and> new \<notin> set ys \<and> count_list (new # ys) new = 1)"
    if wf: "storage_wf K s"
  proof -
    from post wf have dead: "\<not> slot_live s new"
      and keep: "\<And>a. slot_live s a \<Longrightarrow>
                  arc_next_out_arc (el_get s' a) = arc_next_out_arc (el_get s a)
                  \<and> arc_next_in_arc (el_get s' a) = arc_next_in_arc (el_get s a)"
      unfolding arc_new_post_def by blast+
    have out: "out_chain s' (first_out_arc (el_get s' beg)) (new # xs)
                   \<and> new \<notin> set xs \<and> count_list (new # xs) new = 1"
      if c: "out_chain s (first_out_arc (el_get s beg)) xs" and l: "\<forall>x \<in> set xs. slot_live s x"
      for xs
    proof -
      from l dead have nin: "new \<notin> set xs" by blast
      have "out_chain s' (first_out_arc (el_get s beg)) xs
              = out_chain s (first_out_arc (el_get s beg)) xs"
        by (rule out_chain_cong) (use l keep in blast)
      with c have "out_chain s' (first_out_arc (el_get s beg)) xs" by simp
      with assms(2) h1 h3 have "out_chain s' (first_out_arc (el_get s' beg)) (new # xs)"
        by simp
      with nin show ?thesis by (simp add: count_list_0_iff)
    qed
    have inn: "in_chain s' (first_in_arc (el_get s' end_addr)) (new # ys)
                   \<and> new \<notin> set ys \<and> count_list (new # ys) new = 1"
      if c: "in_chain s (first_in_arc (el_get s end_addr)) ys" and l: "\<forall>y \<in> set ys. slot_live s y"
      for ys
    proof -
      from l dead have nin: "new \<notin> set ys" by blast
      have "in_chain s' (first_in_arc (el_get s end_addr)) ys
              = in_chain s (first_in_arc (el_get s end_addr)) ys"
        by (rule in_chain_cong) (use l keep in blast)
      with c have "in_chain s' (first_in_arc (el_get s end_addr)) ys" by simp
      with assms(2) h2 h4 have "in_chain s' (first_in_arc (el_get s' end_addr)) (new # ys)"
        by simp
      with nin show ?thesis by (simp add: count_list_0_iff)
    qed
    from out inn show ?thesis by blast
  qed
  from h1 h2 h3 h4 h5 h6 chains show ?thesis by blast
qed


text \<open>
  The theorem at a second arc between the same two nodes: the first arc is the whole
  output list of the begin node and the whole input list of the end node, and the second
  arc is put in front of it in both.
\<close>

theorem arc_new_prepends_witness:
  "sc_storage_arc_new K_std 0 8 (run_addr K_std [Node 0, Node 0, Arc 8 0 1] 0)
         (run_addr K_std [Node 0, Node 0, Arc 8 0 1] 1)
         (run_storage K_std [Node 0, Node 0, Arc 8 0 1])
     = Some (Returned (run_addr K_std [Node 0, Node 0, Arc 8 0 1, Arc 8 0 1] 3,
                       run_storage K_std [Node 0, Node 0, Arc 8 0 1, Arc 8 0 1]))
   \<and> \<not> SC_ADDR_IS_EMPTY (run_addr K_std [Node 0, Node 0, Arc 8 0 1, Arc 8 0 1] 3)
   \<and> storage_wf K_std (run_storage K_std [Node 0, Node 0, Arc 8 0 1])
   \<and> out_chain (run_storage K_std [Node 0, Node 0, Arc 8 0 1])
        (first_out_arc (el_get (run_storage K_std [Node 0, Node 0, Arc 8 0 1])
           (run_addr K_std [Node 0, Node 0, Arc 8 0 1] 0)))
        [run_addr K_std [Node 0, Node 0, Arc 8 0 1] 2]
   \<and> in_chain (run_storage K_std [Node 0, Node 0, Arc 8 0 1])
        (first_in_arc (el_get (run_storage K_std [Node 0, Node 0, Arc 8 0 1])
           (run_addr K_std [Node 0, Node 0, Arc 8 0 1] 1)))
        [run_addr K_std [Node 0, Node 0, Arc 8 0 1] 2]
   \<and> slot_live (run_storage K_std [Node 0, Node 0, Arc 8 0 1])
        (run_addr K_std [Node 0, Node 0, Arc 8 0 1] 2)
   \<and> first_out_arc (el_get (run_storage K_std [Node 0, Node 0, Arc 8 0 1, Arc 8 0 1])
        (run_addr K_std [Node 0, Node 0, Arc 8 0 1] 0))
      = run_addr K_std [Node 0, Node 0, Arc 8 0 1, Arc 8 0 1] 3
   \<and> arc_prev_out_arc (el_get (run_storage K_std [Node 0, Node 0, Arc 8 0 1, Arc 8 0 1])
        (run_addr K_std [Node 0, Node 0, Arc 8 0 1] 2))
      = run_addr K_std [Node 0, Node 0, Arc 8 0 1, Arc 8 0 1] 3
   \<and> out_chain (run_storage K_std [Node 0, Node 0, Arc 8 0 1, Arc 8 0 1])
        (first_out_arc (el_get (run_storage K_std [Node 0, Node 0, Arc 8 0 1, Arc 8 0 1])
           (run_addr K_std [Node 0, Node 0, Arc 8 0 1] 0)))
        [run_addr K_std [Node 0, Node 0, Arc 8 0 1, Arc 8 0 1] 3,
         run_addr K_std [Node 0, Node 0, Arc 8 0 1] 2]
   \<and> in_chain (run_storage K_std [Node 0, Node 0, Arc 8 0 1, Arc 8 0 1])
        (first_in_arc (el_get (run_storage K_std [Node 0, Node 0, Arc 8 0 1, Arc 8 0 1])
           (run_addr K_std [Node 0, Node 0, Arc 8 0 1] 1)))
        [run_addr K_std [Node 0, Node 0, Arc 8 0 1, Arc 8 0 1] 3,
         run_addr K_std [Node 0, Node 0, Arc 8 0 1] 2]"
proof -
  let ?s = "run_storage K_std [Node 0, Node 0, Arc 8 0 1]"
  let ?a = "run_addr K_std [Node 0, Node 0, Arc 8 0 1] 0"
  let ?b = "run_addr K_std [Node 0, Node 0, Arc 8 0 1] 1"
  let ?e = "run_addr K_std [Node 0, Node 0, Arc 8 0 1] 2"
  let ?new = "run_addr K_std [Node 0, Node 0, Arc 8 0 1, Arc 8 0 1] 3"
  let ?s' = "run_storage K_std [Node 0, Node 0, Arc 8 0 1, Arc 8 0 1]"
  have r: "sc_storage_arc_new K_std 0 8 ?a ?b ?s = Some (Returned (?new, ?s'))"
    by (simp add: eval_defs cong: let_weak_cong)
  have ne: "\<not> SC_ADDR_IS_EMPTY ?new"
    by (simp add: eval_defs cong: let_weak_cong)
  have wf: "storage_wf K_std ?s"
    by (simp add: eval_defs storage_wf_def cong: let_weak_cong)
  have oc: "out_chain ?s (first_out_arc (el_get ?s ?a)) [?e]"
    by (simp add: eval_defs cong: let_weak_cong)
  have ic: "in_chain ?s (first_in_arc (el_get ?s ?b)) [?e]"
    by (simp add: eval_defs cong: let_weak_cong)
  have lv: "slot_live ?s ?e"
    by (simp add: eval_defs slot_live_def cong: let_weak_cong)
  have hd_ne: "\<not> SC_ADDR_IS_EMPTY (first_out_arc (el_get ?s ?a))"
    using oc by simp
  note c = arc_new_prepends [OF r ne]
  note c1 = c [THEN conjunct1]
  note c5 = c [THEN conjunct2, THEN conjunct2, THEN conjunct2, THEN conjunct2,
      THEN conjunct1, rule_format, OF hd_ne]
  note c7 = c [THEN conjunct2, THEN conjunct2, THEN conjunct2, THEN conjunct2,
      THEN conjunct2, THEN conjunct2, rule_format, OF wf]
  have lvs: "\<forall>x \<in> set [?e]. slot_live ?s x" using lv by simp
  from c7 oc lvs have o': "out_chain ?s' (first_out_arc (el_get ?s' ?a)) [?new, ?e]"
    by blast
  from c7 ic lvs have i': "in_chain ?s' (first_in_arc (el_get ?s' ?b)) [?new, ?e]"
    by blast
  from oc have hd: "first_out_arc (el_get ?s ?a) = ?e" by simp
  from r ne wf oc ic lv c1 c5 [unfolded hd] o' i' show ?thesis by blast
qed


subsection \<open>Creation after frees: a concrete run\<close>

text \<open>
  C2 (the code departs from the claim). In the run \<open>script_reuse\<close> all three frees
  return \<^verbatim>\<open>SC_RESULT_OK\<close>. Afterwards \<^verbatim>\<open>a.first_out\<close> is the live arc of slot 5, and
  the \<^verbatim>\<open>next_out\<close> of that arc still is slot 3, which is erased: the visit loop of the frees has cut arcs off the list of \<open>a\<close> by assigning
  \<^verbatim>\<open>first_out_arc\<close> for every visited arc, and the erase loop, which follows the
  \<^verbatim>\<open>prev\<close> fields, has not reached them. A further \<^verbatim>\<open>sc_storage_arc_new\<close> from \<open>a\<close> to
  \<open>b\<close> returns the address of slot 3; it heads both lists and its successors are the old
  heads, but the old head leads back to it: the traversal from \<^verbatim>\<open>a.first_out\<close> along
  \<^verbatim>\<open>next_out\<close> meets the new arc, slot 5, and the new arc again, and never ends. The
  same holds from \<^verbatim>\<open>b.first_in\<close> along \<^verbatim>\<open>next_in\<close>.
\<close>

theorem arc_new_cycle_after_free:
  "run_results K_std script_reuse = [SC_RESULT_OK, SC_RESULT_OK, SC_RESULT_OK]
   \<and> first_out_arc (el_get (run_storage K_std script_reuse) (run_addr K_std script_reuse 0))
       = \<lparr>seg = 0, offset = 5\<rparr>
   \<and> arc_next_out_arc (el_get (run_storage K_std script_reuse) \<lparr>seg = 0, offset = 5\<rparr>)
       = \<lparr>seg = 0, offset = 3\<rparr>
   \<and> slot_live (run_storage K_std script_reuse) \<lparr>seg = 0, offset = 5\<rparr>
   \<and> \<not> slot_live (run_storage K_std script_reuse) \<lparr>seg = 0, offset = 3\<rparr>
   \<and> sc_storage_arc_new K_std 0 8 (run_addr K_std script_reuse 0) (run_addr K_std script_reuse 1)
         (run_storage K_std script_reuse)
       = Some (Returned (\<lparr>seg = 0, offset = 3\<rparr>, run_storage K_std (script_reuse @ [Arc 8 0 1])))
   \<and> \<not> SC_ADDR_IS_EMPTY \<lparr>seg = 0, offset = 3\<rparr>
   \<and> first_out_arc (el_get (run_storage K_std (script_reuse @ [Arc 8 0 1]))
         (run_addr K_std script_reuse 0)) = \<lparr>seg = 0, offset = 3\<rparr>
   \<and> arc_next_out_arc (el_get (run_storage K_std (script_reuse @ [Arc 8 0 1]))
         \<lparr>seg = 0, offset = 3\<rparr>) = \<lparr>seg = 0, offset = 5\<rparr>
   \<and> arc_next_out_arc (el_get (run_storage K_std (script_reuse @ [Arc 8 0 1]))
         \<lparr>seg = 0, offset = 5\<rparr>) = \<lparr>seg = 0, offset = 3\<rparr>
   \<and> first_in_arc (el_get (run_storage K_std (script_reuse @ [Arc 8 0 1]))
         (run_addr K_std script_reuse 1)) = \<lparr>seg = 0, offset = 3\<rparr>
   \<and> arc_next_in_arc (el_get (run_storage K_std (script_reuse @ [Arc 8 0 1]))
         \<lparr>seg = 0, offset = 3\<rparr>) = \<lparr>seg = 0, offset = 5\<rparr>
   \<and> arc_next_in_arc (el_get (run_storage K_std (script_reuse @ [Arc 8 0 1]))
         \<lparr>seg = 0, offset = 5\<rparr>) = \<lparr>seg = 0, offset = 3\<rparr>
   \<and> out_walk 3 (run_storage K_std (script_reuse @ [Arc 8 0 1]))
         (first_out_arc (el_get (run_storage K_std (script_reuse @ [Arc 8 0 1]))
            (run_addr K_std script_reuse 0)))
       = [\<lparr>seg = 0, offset = 3\<rparr>, \<lparr>seg = 0, offset = 5\<rparr>, \<lparr>seg = 0, offset = 3\<rparr>]
   \<and> in_walk 3 (run_storage K_std (script_reuse @ [Arc 8 0 1]))
         (first_in_arc (el_get (run_storage K_std (script_reuse @ [Arc 8 0 1]))
            (run_addr K_std script_reuse 1)))
       = [\<lparr>seg = 0, offset = 3\<rparr>, \<lparr>seg = 0, offset = 5\<rparr>, \<lparr>seg = 0, offset = 3\<rparr>]"
proof -
  let ?as = "[\<lparr>seg = 0, offset = 1\<rparr>, \<lparr>seg = 0, offset = 2\<rparr>, \<lparr>seg = 0, offset = 3\<rparr>,
              \<lparr>seg = 0, offset = 4\<rparr>, \<lparr>seg = 0, offset = 5\<rparr>, \<lparr>seg = 0, offset = 6\<rparr>,
              \<lparr>seg = 0, offset = 4 :: nat\<rparr>]"
  let ?rs = "[SC_RESULT_OK, SC_RESULT_OK, SC_RESULT_OK]"
  note h = script_reuse_evaluated
  obtain as rs s where r0: "run K_std script_reuse = Some (Returned (as, rs, s))"
  proof (cases "run K_std script_reuse")
    case None
    with h show ?thesis by simp
  next
    case (Some y)
    show ?thesis
    proof (cases y)
      case Aborted
      with Some h show ?thesis by simp
    next
      case (Returned t)
      with Some that show ?thesis by (cases t) auto
    qed
  qed
  note h1 = h [unfolded r0 option.case outcome.case prod.case]
  from h1 have as: "as = ?as" and rs: "rs = ?rs" by (rule conjunct1, rule conjunct2 [THEN conjunct1])
  note r = r0 [unfolded as rs]
  from h1 have pre: "storage_wf K_std s"
      "first_out_arc (el_get s \<lparr>seg = 0, offset = 1\<rparr>) = \<lparr>seg = 0, offset = 5\<rparr>"
      "arc_next_out_arc (el_get s \<lparr>seg = 0, offset = 5\<rparr>) = \<lparr>seg = 0, offset = 3\<rparr>"
      "slot_live s \<lparr>seg = 0, offset = 5\<rparr>"
      "\<not> slot_live s \<lparr>seg = 0, offset = 3\<rparr>"
    by blast+
  from h1 have h2: "(case sc_storage_arc_new K_std 0 8 \<lparr>seg = 0, offset = 1\<rparr> \<lparr>seg = 0, offset = 2\<rparr> s of
              Some (Returned (new, s')) \<Rightarrow>
                new = \<lparr>seg = 0, offset = 3\<rparr>
                \<and> first_out_arc (el_get s' \<lparr>seg = 0, offset = 1\<rparr>) = \<lparr>seg = 0, offset = 3\<rparr>
                \<and> arc_next_out_arc (el_get s' \<lparr>seg = 0, offset = 3\<rparr>) = \<lparr>seg = 0, offset = 5\<rparr>
                \<and> arc_next_out_arc (el_get s' \<lparr>seg = 0, offset = 5\<rparr>) = \<lparr>seg = 0, offset = 3\<rparr>
                \<and> first_in_arc (el_get s' \<lparr>seg = 0, offset = 2\<rparr>) = \<lparr>seg = 0, offset = 3\<rparr>
                \<and> arc_next_in_arc (el_get s' \<lparr>seg = 0, offset = 3\<rparr>) = \<lparr>seg = 0, offset = 5\<rparr>
                \<and> arc_next_in_arc (el_get s' \<lparr>seg = 0, offset = 5\<rparr>) = \<lparr>seg = 0, offset = 3\<rparr>
            | _ \<Rightarrow> False)"
    by blast
  obtain new s' where an0: "sc_storage_arc_new K_std 0 8 \<lparr>seg = 0, offset = 1\<rparr>
        \<lparr>seg = 0, offset = 2\<rparr> s = Some (Returned (new, s'))"
  proof (cases "sc_storage_arc_new K_std 0 8 \<lparr>seg = 0, offset = 1\<rparr> \<lparr>seg = 0, offset = 2\<rparr> s")
    case None
    with h2 show ?thesis by simp
  next
    case (Some y)
    show ?thesis
    proof (cases y)
      case Aborted
      with Some h2 show ?thesis by simp
    next
      case (Returned t)
      with Some that show ?thesis by (cases t) auto
    qed
  qed
  note h3 = h2 [unfolded an0 option.case outcome.case prod.case]
  from h3 have new: "new = \<lparr>seg = 0, offset = 3\<rparr>" by (rule conjunct1)
  note an = an0 [unfolded new]
  from h3 have post: "first_out_arc (el_get s' \<lparr>seg = 0, offset = 1\<rparr>) = \<lparr>seg = 0, offset = 3\<rparr>"
      "arc_next_out_arc (el_get s' \<lparr>seg = 0, offset = 3\<rparr>) = \<lparr>seg = 0, offset = 5\<rparr>"
      "arc_next_out_arc (el_get s' \<lparr>seg = 0, offset = 5\<rparr>) = \<lparr>seg = 0, offset = 3\<rparr>"
      "first_in_arc (el_get s' \<lparr>seg = 0, offset = 2\<rparr>) = \<lparr>seg = 0, offset = 3\<rparr>"
      "arc_next_in_arc (el_get s' \<lparr>seg = 0, offset = 3\<rparr>) = \<lparr>seg = 0, offset = 5\<rparr>"
      "arc_next_in_arc (el_get s' \<lparr>seg = 0, offset = 5\<rparr>) = \<lparr>seg = 0, offset = 3\<rparr>"
    by blast+
  have r': "run K_std (script_reuse @ [Arc 8 0 1])
              = Some (Returned (?as @ [\<lparr>seg = 0, offset = 3\<rparr>], ?rs, s'))"
    using run_append [OF r, of "[Arc 8 0 1]"] an by simp
  have e: "run_storage K_std script_reuse = s"
    "run_addr K_std script_reuse 0 = \<lparr>seg = 0, offset = 1\<rparr>"
    "run_addr K_std script_reuse 1 = \<lparr>seg = 0, offset = 2\<rparr>"
    "run_results K_std script_reuse = ?rs"
    unfolding run_storage_def run_addr_def run_results_def r by simp_all
  have e': "run_storage K_std (script_reuse @ [Arc 8 0 1]) = s'"
    unfolding run_storage_def r' by simp
  show ?thesis
    unfolding e e' using pre post an by (simp add: SC_ADDR_IS_EMPTY_def numeral_3_eq_3)
qed


subsection \<open>Freeing: the notifications\<close>

text \<open>
  C8. The code does not notify the sink of \<^verbatim>\<open>REMOVE_ELEMENT\<close> once per deleted element:
  \<^verbatim>\<open>sc_event_emit(addr, SC_EVENT_REMOVE_ELEMENT, addr)\<close> stands after the three loops and
  runs once per call. What holds for every call that returns \<^verbatim>\<open>SC_RESULT_OK\<close>, when the
  iteration over a table visits exactly its keys: the log of the sink grows by a list
  \<open>evs\<close> of notifications followed by exactly one \<^verbatim>\<open>REMOVE_ELEMENT\<close> event, \<open>evs\<close> holds no
  \<^verbatim>\<open>REMOVE_ELEMENT\<close> event, and for every element \<open>a\<close> that the call erases (live before,
  not live after) \<open>evs\<close> holds \<^verbatim>\<open>sc_event_notify_element_deleted(a)\<close> and, when \<open>a\<close> is an
  arc, \<^verbatim>\<open>REMOVE_OUTPUT_ARC(begin, a)\<close> and \<^verbatim>\<open>REMOVE_INPUT_ARC(end, a)\<close>. All of them are
  in the log of the returned storage, so they are made before the call returns.
\<close>

theorem free_events:
  assumes "sc_storage_element_free K ctx addr s = Some (Returned (SC_RESULT_OK, s'))"
    and "\<forall>t. set (table_iter K t) = set t"
  shows "\<exists>evs x. event_log s' = event_log s @ evs @ [Event_emit x SC_EVENT_REMOVE_ELEMENT x]
           \<and> remove_element_events evs = []
           \<and> (\<forall>a. slot_live s a \<and> \<not> slot_live s' a \<longrightarrow>
                  Element_deleted a \<in> set evs
                  \<and> (el_type (el_get s a) AND sc_type_arc_mask K \<noteq> 0 \<longrightarrow>
                        Event_emit (arc_begin (el_get s a)) SC_EVENT_REMOVE_OUTPUT_ARC a \<in> set evs
                        \<and> Event_emit (arc_end (el_get s a)) SC_EVENT_REMOVE_INPUT_ARC a \<in> set evs))"
proof -
  obtain r p s1 where l: "sc_storage_element_lock K ctx addr s = (r, p, s1)"
    by (cases "sc_storage_element_lock K ctx addr s") auto
  from assms(1) l obtain el where p: "p = Some el" and rok: "r = SC_RESULT_OK"
    by (cases p) (auto simp: sc_storage_element_free_def split: if_splits)
  from lock_cases [OF l] p have same1: "same_elements s s1" by auto
  from assms(1) l p rok obtain s2 rt lt s3 where
    col: "free_collect K ctx [addr] (s1, [addr], [addr]) = Some (Returned (s2, rt, lt))"
    and era: "free_erase_all K ctx (table_iter K rt) lt s2 = Returned s3"
    and s': "s' = sc_event_emit
                    (last_key (table_iter K lt) (last_key (table_iter K rt) addr))
                    SC_EVENT_REMOVE_ELEMENT
                    (last_key (table_iter K lt) (last_key (table_iter K rt) addr))
                    (free_unlock_all K ctx (table_iter K lt) s3)"
    by (auto simp: sc_storage_element_free_def Let_def
          split: if_splits option.splits outcome.splits)
  let ?x = "last_key (table_iter K lt) (last_key (table_iter K rt) addr)"
  let ?s4 = "free_unlock_all K ctx (table_iter K lt) s3"
  from free_collect_result [OF col] obtain evs where
    k2: "free_keeps s1 s2" and log2: "event_log s2 = event_log s1 @ evs"
    and re: "remove_element_events evs = []"
    and n: "\<forall>x \<in> set rt. free_notified K s1 evs x"
    by blast
  note e3 = free_erase_all_result [OF era]
  have same4: "same_elements s3 ?s4" by (rule free_unlock_all_same)
  have ks: "free_keeps s s1" by (rule same_elements_keeps [OF same1])
  have log: "event_log s' = event_log s @ evs @ [Event_emit ?x SC_EVENT_REMOVE_ELEMENT ?x]"
    using same1 log2 e3 same4 by (simp add: s' event_log_emit same_elements_def)
  have notif: "free_notified K s evs a" if live: "slot_live s a" and dead: "\<not> slot_live s' a"
    for a
  proof -
    have pub: "segments s' (seg a) \<noteq> None"
    proof -
      from live have "segments s (seg a) \<noteq> None" by (simp add: slot_live_iff)
      with same1 have "segments s1 (seg a) \<noteq> None" by (simp add: same_elements_def)
      with k2 have "segments s2 (seg a) \<noteq> None" by (simp add: free_keeps_def)
      with e3 have "segments s3 (seg a) \<noteq> None" by simp
      with same4 have "segments ?s4 (seg a) \<noteq> None" by (simp add: same_elements_def)
      then show ?thesis by (simp add: s')
    qed
    have "a \<in> set (table_iter K rt)"
    proof (rule ccontr)
      assume "a \<notin> set (table_iter K rt)"
      with e3 have "el_type (el_get s3 a) = el_type (el_get s2 a)" by simp
      also from k2 have "\<dots> = el_type (el_get s1 a)" by (simp add: free_keeps_def)
      also from same1 have "\<dots> = el_type (el_get s a)" by (simp add: same_elements_def)
      finally have "el_type (el_get s3 a) = el_type (el_get s a)" .
      moreover from same4 have "el_get ?s4 a = el_get s3 a" by (simp add: same_elements_def)
      ultimately have "el_type (el_get s' a) = el_type (el_get s a)" by (simp add: s')
      with live pub have "slot_live s' a" by (simp add: slot_live_iff)
      with dead show False ..
    qed
    with assms(2) have "a \<in> set rt" by simp
    with n have "free_notified K s1 evs a" by blast
    then show ?thesis by (simp add: free_keeps_notified [OF ks])
  qed
  from log re notif show ?thesis
    unfolding free_notified_def by blast
qed

text \<open>
  The theorem at the free of the middle node \<open>b\<close> of the chain \<open>a \<rightarrow> b \<rightarrow> c\<close>, for the
  erased arc from \<open>a\<close> to \<open>b\<close>.
\<close>

theorem free_events_witness:
  "sc_storage_element_free K_std 0 (run_addr K_std script_chain 1)
       (run_storage K_std script_chain)
     = Some (Returned (SC_RESULT_OK, run_storage K_std (script_chain @ [Free 1])))
   \<and> (\<forall>t. set (table_iter K_std t) = set t)
   \<and> slot_live (run_storage K_std script_chain) (run_addr K_std script_chain 3)
   \<and> \<not> slot_live (run_storage K_std (script_chain @ [Free 1])) (run_addr K_std script_chain 3)
   \<and> el_type (el_get (run_storage K_std script_chain) (run_addr K_std script_chain 3))
        AND sc_type_arc_mask K_std \<noteq> 0
   \<and> arc_begin (el_get (run_storage K_std script_chain) (run_addr K_std script_chain 3))
        = run_addr K_std script_chain 0
   \<and> arc_end (el_get (run_storage K_std script_chain) (run_addr K_std script_chain 3))
        = run_addr K_std script_chain 1
   \<and> (\<exists>evs x. event_log (run_storage K_std (script_chain @ [Free 1]))
                 = event_log (run_storage K_std script_chain) @ evs
                     @ [Event_emit x SC_EVENT_REMOVE_ELEMENT x]
          \<and> remove_element_events evs = []
          \<and> Element_deleted (run_addr K_std script_chain 3) \<in> set evs
          \<and> Event_emit (run_addr K_std script_chain 0) SC_EVENT_REMOVE_OUTPUT_ARC
                (run_addr K_std script_chain 3) \<in> set evs
          \<and> Event_emit (run_addr K_std script_chain 1) SC_EVENT_REMOVE_INPUT_ARC
                (run_addr K_std script_chain 3) \<in> set evs)"
proof -
  let ?s = "run_storage K_std script_chain"
  let ?s' = "run_storage K_std (script_chain @ [Free 1])"
  let ?e = "run_addr K_std script_chain 3"
  have r: "sc_storage_element_free K_std 0 (run_addr K_std script_chain 1) ?s
             = Some (Returned (SC_RESULT_OK, ?s'))"
    by (simp add: eval_defs cong: let_weak_cong)
  have it: "\<forall>t. set (table_iter K_std t) = set t"
    by (simp add: K_std_def)
  have lv: "slot_live ?s ?e" "\<not> slot_live ?s' ?e"
    by (simp_all add: eval_defs slot_live_def cong: let_weak_cong)
  have ty: "el_type (el_get ?s ?e) AND sc_type_arc_mask K_std \<noteq> 0"
    by (simp add: eval_defs cong: let_weak_cong)
  have be: "arc_begin (el_get ?s ?e) = run_addr K_std script_chain 0"
    "arc_end (el_get ?s ?e) = run_addr K_std script_chain 1"
    by (simp_all add: eval_defs cong: let_weak_cong)
  from free_events [OF r it] obtain evs x where
    log: "event_log ?s' = event_log ?s @ evs @ [Event_emit x SC_EVENT_REMOVE_ELEMENT x]"
    and re: "remove_element_events evs = []"
    and n: "\<forall>a. slot_live ?s a \<and> \<not> slot_live ?s' a \<longrightarrow>
              Element_deleted a \<in> set evs
              \<and> (el_type (el_get ?s a) AND sc_type_arc_mask K_std \<noteq> 0 \<longrightarrow>
                    Event_emit (arc_begin (el_get ?s a)) SC_EVENT_REMOVE_OUTPUT_ARC a \<in> set evs
                    \<and> Event_emit (arc_end (el_get ?s a)) SC_EVENT_REMOVE_INPUT_ARC a \<in> set evs)"
    by blast
  from n [rule_format, OF conjI, OF lv] ty
  have "Element_deleted ?e \<in> set evs"
    and "Event_emit (arc_begin (el_get ?s ?e)) SC_EVENT_REMOVE_OUTPUT_ARC ?e \<in> set evs"
    and "Event_emit (arc_end (el_get ?s ?e)) SC_EVENT_REMOVE_INPUT_ARC ?e \<in> set evs"
    by blast+
  with be have m: "Element_deleted ?e \<in> set evs"
    "Event_emit (run_addr K_std script_chain 0) SC_EVENT_REMOVE_OUTPUT_ARC ?e \<in> set evs"
    "Event_emit (run_addr K_std script_chain 1) SC_EVENT_REMOVE_INPUT_ARC ?e \<in> set evs"
    by simp_all
  from r it lv ty be log re m show ?thesis by blast
qed

text \<open>
  The same run read against C8 as stated: the call erases three elements (\<open>b\<close> and the
  two arcs), the log holds a single \<^verbatim>\<open>REMOVE_ELEMENT\<close> event, and its address is the node
  \<open>a\<close>, which the call does not erase (the variable \<^verbatim>\<open>addr\<close> holds the last key of the
  loop over \<^verbatim>\<open>lock_table\<close> by then).
\<close>

theorem free_one_element_event:
  "run_results K_std (script_chain @ [Free 1]) = [SC_RESULT_OK]
   \<and> slot_live (run_storage K_std script_chain) (run_addr K_std script_chain 1)
   \<and> slot_live (run_storage K_std script_chain) (run_addr K_std script_chain 3)
   \<and> slot_live (run_storage K_std script_chain) (run_addr K_std script_chain 4)
   \<and> \<not> slot_live (run_storage K_std (script_chain @ [Free 1])) (run_addr K_std script_chain 1)
   \<and> \<not> slot_live (run_storage K_std (script_chain @ [Free 1])) (run_addr K_std script_chain 3)
   \<and> \<not> slot_live (run_storage K_std (script_chain @ [Free 1])) (run_addr K_std script_chain 4)
   \<and> slot_live (run_storage K_std (script_chain @ [Free 1])) (run_addr K_std script_chain 0)
   \<and> remove_element_events (event_log (run_storage K_std script_chain)) = []
   \<and> remove_element_events (event_log (run_storage K_std (script_chain @ [Free 1])))
        = [run_addr K_std script_chain 0]"
  by (simp add: eval_defs slot_live_def cong: let_weak_cong)

end
